theory Spec2Isabelle
  imports
    Main
    "HOL-Library.Word"
    "HOL-Library.Char_ord"
    "HOL-Library.List_Lexorder"
    "HOL-Library.Sublist"
begin

section \<open>turso-migrate: the migration engine and its ledger store\<close>

text \<open>
  A shallow embedding of \<^verbatim>\<open>internal/migration/engine.go\<close> and
  \<^verbatim>\<open>internal/storage/turso.go\<close>. Go strings are byte sequences and so are
  HOL strings; \<open>HOL-Library.Char_ord\<close> and \<open>HOL-Library.List_Lexorder\<close> give
  them the bytewise lexicographic order of Go's \<^verbatim>\<open><\<close> on strings (and of
  SQLite's BINARY collation, which the ledger's \<^verbatim>\<open>ORDER BY version\<close> uses).
\<close>

subsection \<open>Errors\<close>

text \<open>
  Go's \<^verbatim>\<open>error\<close> values, as far as the engine tells them apart:
  \<^item> \<open>PathError op path errno\<close>: what \<^verbatim>\<open>os.Lstat\<close>, \<^verbatim>\<open>os.ReadDir\<close>
    and \<^verbatim>\<open>os.ReadFile\<close> return;
  \<^item> \<open>DriverError msg\<close>: what \<^verbatim>\<open>database/sql\<close> and the libsql driver return;
  \<^item> \<open>New msg\<close>: \<^verbatim>\<open>fmt.Errorf\<close> without \<^verbatim>\<open>%w\<close>;
  \<^item> \<open>Errorf msg err\<close>: \<^verbatim>\<open>fmt.Errorf("<msg>%w", err)\<close>, which wraps \<open>err\<close>.
\<close>

datatype errno = ENOENT | EACCES | EISDIR | EIO

datatype error =
    PathError string string errno
  | DriverError string
  | New string
  | Errorf string error

fun errno_text :: "errno \<Rightarrow> string" where
  "errno_text ENOENT = ''no such file or directory''"
| "errno_text EACCES = ''permission denied''"
| "errno_text EISDIR = ''is a directory''"
| "errno_text EIO = ''input/output error''"

text \<open>\<^verbatim>\<open>err.Error()\<close>.\<close>

fun Error :: "error \<Rightarrow> string" where
  "Error (PathError op path e) = op @ '' '' @ path @ '': '' @ errno_text e"
| "Error (DriverError msg) = msg"
| "Error (New msg) = msg"
| "Error (Errorf msg err) = msg @ Error err"


text \<open>
  \<^verbatim>\<open>os.IsNotExist\<close> looks inside a \<^verbatim>\<open>*PathError\<close> only: it predates
  \<^verbatim>\<open>errors.Is\<close> and does not follow \<^verbatim>\<open>fmt.Errorf\<close>'s \<^verbatim>\<open>%w\<close>.
\<close>

fun IsNotExist :: "error \<Rightarrow> bool" where
  "IsNotExist (PathError op path e) = (e = ENOENT)"
| "IsNotExist e = False"

subsection \<open>The \<^verbatim>\<open>strings\<close> package\<close>

text \<open>\<^verbatim>\<open>strings.HasSuffix\<close>:
  \<^verbatim>\<open>len(s) >= len(suffix) && s[len(s)-len(suffix):] == suffix\<close>.\<close>

definition HasSuffix :: "string \<Rightarrow> string \<Rightarrow> bool" where
  "HasSuffix s suf = (length suf \<le> length s \<and> drop (length s - length suf) s = suf)"

text \<open>\<^verbatim>\<open>strings.Contains\<close>: \<open>sub\<close> occurs in \<open>s\<close> as a run of consecutive bytes.\<close>

fun Contains :: "string \<Rightarrow> string \<Rightarrow> bool" where
  "Contains [] sub = (sub = [])"
| "Contains (c # s) sub = (prefix sub (c # s) \<or> Contains s sub)"

text \<open>\<^verbatim>\<open>strings.Join(elems, sep)\<close>.\<close>

fun Join :: "string list \<Rightarrow> string \<Rightarrow> string" where
  "Join [] sep = []"
| "Join [l] sep = l"
| "Join (l # ls) sep = l @ sep @ Join ls sep"

text \<open>
  The UTF-8 encodings of the runes \<^verbatim>\<open>unicode.IsSpace\<close> accepts: tab, line feed,
  vertical tab, form feed, carriage return, space, U+0085, U+00A0, U+1680,
  U+2000 to U+200A, U+2028, U+2029, U+202F, U+205F and U+3000.
\<close>

definition white_space :: "string list" where
  "white_space =
     [[CHR 0x09], [CHR 0x0A], [CHR 0x0B], [CHR 0x0C], [CHR 0x0D], [CHR 0x20],
      [CHR 0xC2, CHR 0x85], [CHR 0xC2, CHR 0xA0],
      [CHR 0xE1, CHR 0x9A, CHR 0x80],
      [CHR 0xE2, CHR 0x80, CHR 0x80], [CHR 0xE2, CHR 0x80, CHR 0x81],
      [CHR 0xE2, CHR 0x80, CHR 0x82], [CHR 0xE2, CHR 0x80, CHR 0x83],
      [CHR 0xE2, CHR 0x80, CHR 0x84], [CHR 0xE2, CHR 0x80, CHR 0x85],
      [CHR 0xE2, CHR 0x80, CHR 0x86], [CHR 0xE2, CHR 0x80, CHR 0x87],
      [CHR 0xE2, CHR 0x80, CHR 0x88], [CHR 0xE2, CHR 0x80, CHR 0x89],
      [CHR 0xE2, CHR 0x80, CHR 0x8A],
      [CHR 0xE2, CHR 0x80, CHR 0xA8], [CHR 0xE2, CHR 0x80, CHR 0xA9],
      [CHR 0xE2, CHR 0x80, CHR 0xAF],
      [CHR 0xE2, CHR 0x81, CHR 0x9F],
      [CHR 0xE3, CHR 0x80, CHR 0x80]]"

text \<open>
  \<^verbatim>\<open>strings.TrimLeftFunc(s, unicode.IsSpace)\<close>: drop white-space runes from the
  front until the first rune that is none. \<open>ws\<close> is the list of encodings to
  look for. A byte that does not start a valid encoding decodes to U+FFFD,
  which is no white space.
\<close>

function strip_runes :: "string list \<Rightarrow> string \<Rightarrow> string" where
  "strip_runes ws [] = []"
| "strip_runes ws (c # s) =
     (case find (\<lambda>w. w \<noteq> [] \<and> prefix w (c # s)) ws of
        None \<Rightarrow> c # s
      | Some w \<Rightarrow> strip_runes ws (drop (length w) (c # s)))"
  by pat_completeness auto
termination
  by (relation "measure (\<lambda>(ws, s). length s)") (auto simp: find_Some_iff)

definition TrimLeftSpace :: "string \<Rightarrow> string" where
  "TrimLeftSpace s = strip_runes white_space s"

text \<open>
  \<^verbatim>\<open>strings.TrimRightFunc(s, unicode.IsSpace)\<close> decodes the last rune and drops
  it while it is white space: the same walk on the reversed bytes, looking for
  the reversed encodings.
\<close>

definition TrimRightSpace :: "string \<Rightarrow> string" where
  "TrimRightSpace s = rev (strip_runes (map rev white_space) (rev s))"

text \<open>\<^verbatim>\<open>strings.TrimSpace\<close>: the front is trimmed first, then the end of what is left.\<close>

definition TrimSpace :: "string \<Rightarrow> string" where
  "TrimSpace s = TrimRightSpace (TrimLeftSpace s)"

subsection \<open>\<^verbatim>\<open>bufio.Scanner\<close> with the default \<^verbatim>\<open>ScanLines\<close> split\<close>

text \<open>
  \<open>split_nl cur s\<close> cuts \<open>s\<close> at every line feed; \<open>cur\<close> is the line read so
  far. A last line with no line feed is a line when it is not empty.
\<close>

fun split_nl :: "string \<Rightarrow> string \<Rightarrow> string list" where
  "split_nl cur [] = (if cur = [] then [] else [cur])"
| "split_nl cur (c # cs) =
     (if c = CHR 0x0A then cur # split_nl [] cs else split_nl (cur @ [c]) cs)"

text \<open>\<^verbatim>\<open>dropCR\<close>: a line loses one trailing carriage return.\<close>

definition dropCR :: "string \<Rightarrow> string" where
  "dropCR l = (if l \<noteq> [] \<and> last l = CHR 0x0D then butlast l else l)"

text \<open>
  \<^verbatim>\<open>bufio.MaxScanTokenSize\<close>: the scanner's buffer holds 64 KiB, line feed
  included.
\<close>

definition MaxScanTokenSize :: nat where
  "MaxScanTokenSize = 64 * 1024"

text \<open>
  The lines that successive \<^verbatim>\<open>scanner.Scan()\<close> calls deliver as
  \<^verbatim>\<open>scanner.Text()\<close>. A line that does not fit the buffer makes \<^verbatim>\<open>Scan\<close>
  return false with \<^verbatim>\<open>ErrTooLong\<close>: the scan ends there, and
  \<^verbatim>\<open>parseSQL\<close> never looks at \<^verbatim>\<open>scanner.Err()\<close>.
\<close>

definition Scan :: "string \<Rightarrow> string list" where
  "Scan content =
     map dropCR (takeWhile (\<lambda>l. length l < MaxScanTokenSize) (split_nl [] content))"

subsection \<open>\<^verbatim>\<open>parseSQL\<close>\<close>

text \<open>
  The body of the \<^verbatim>\<open>for scanner.Scan()\<close> loop of \<^verbatim>\<open>parseSQL\<close>, on the
  lines still to come; the state is \<^verbatim>\<open>currentSection\<close>, \<^verbatim>\<open>upLines\<close>
  and \<^verbatim>\<open>downLines\<close>.
\<close>

fun parseSQL_loop ::
  "string list \<Rightarrow> string \<Rightarrow> string list \<Rightarrow> string list \<Rightarrow> string list \<times> string list"
where
  "parseSQL_loop [] currentSection upLines downLines = (upLines, downLines)"
| "parseSQL_loop (text # more) currentSection upLines downLines =
     (let line = TrimSpace text in
      if Contains line ''==== UP ===='' then parseSQL_loop more ''up'' upLines downLines
      else if Contains line ''==== DOWN ===='' then parseSQL_loop more ''down'' upLines downLines
      else if currentSection = ''up'' then
        parseSQL_loop more currentSection (upLines @ [text]) downLines
      else if currentSection = ''down'' then
        parseSQL_loop more currentSection upLines (downLines @ [text])
      else parseSQL_loop more currentSection upLines downLines)"

definition parseSQL :: "string \<Rightarrow> string \<times> string" where
  "parseSQL content =
     (let (upLines, downLines) = parseSQL_loop (Scan content) [] [] [] in
      (TrimSpace (Join upLines [CHR 0x0A]), TrimSpace (Join downLines [CHR 0x0A])))"

subsection \<open>Migration files and the file system\<close>

text \<open>\<^verbatim>\<open>storage.Migration\<close>, a row of the ledger; \<^verbatim>\<open>time.Time\<close> is a number.\<close>

record Migration =
  Version :: string
  Name :: string
  AppliedAt :: nat

text \<open>\<^verbatim>\<open>migration.MigrationFile\<close>.\<close>

record MigrationFile =
  Version :: string
  Name :: string
  Path :: string
  UpSQL :: string
  DownSQL :: string

text \<open>
  What the engine finds at a path: a file with its content, a file that
  \<^verbatim>\<open>os.ReadFile\<close> fails on, a directory with the entries \<^verbatim>\<open>os.ReadDir\<close>
  lists (in its order, sorted by name), or a directory that \<^verbatim>\<open>os.ReadDir\<close>
  fails on.
\<close>

datatype node =
    File string
  | BadFile errno
  | Dir "(string \<times> node) list"
  | BadDir errno

fun IsDir :: "node \<Rightarrow> bool" where
  "IsDir (Dir entries) = True"
| "IsDir (BadDir e) = True"
| "IsDir n = False"

text \<open>
  \<^verbatim>\<open>filepath.Base\<close> on a slash-separated path: trailing slashes go, then
  everything up to the last slash.
\<close>

definition Base :: "string \<Rightarrow> string" where
  "Base path =
     (if path = [] then ''.''
      else let p = dropWhile (\<lambda>c. c = CHR ''/'') (rev path) in
        if p = [] then ''/'' else rev (takeWhile (\<lambda>c. c \<noteq> CHR ''/'') p))"

text \<open>The elements of a path: what stands between its slashes.\<close>

fun split_slash :: "string \<Rightarrow> string \<Rightarrow> string list" where
  "split_slash cur [] = [cur]"
| "split_slash cur (c # cs) =
     (if c = CHR ''/'' then cur # split_slash [] cs else split_slash (cur @ [c]) cs)"

text \<open>
  \<^verbatim>\<open>filepath.Clean\<close> on a slash-separated path, element by element: empty
  elements and \<^verbatim>\<open>.\<close> go; \<^verbatim>\<open>..\<close> takes the element before it along,
  unless there is none (then it stays, or goes when the path is rooted) or
  that element is \<^verbatim>\<open>..\<close> itself. An empty result is \<^verbatim>\<open>.\<close>.
\<close>

definition clean_step :: "bool \<Rightarrow> string list \<Rightarrow> string \<Rightarrow> string list" where
  "clean_step rooted acc elem =
     (if elem = [] \<or> elem = ''.'' then acc
      else if elem = ''..'' then
        (if acc \<noteq> [] \<and> last acc \<noteq> ''..'' then butlast acc
         else if rooted then acc
         else acc @ [elem])
      else acc @ [elem])"

definition Clean :: "string \<Rightarrow> string" where
  "Clean path =
     (let rooted = prefix ''/'' path;
          elems = foldl (clean_step rooted) [] (split_slash [] path);
          out = (if rooted then ''/'' else []) @ Join elems ''/''
      in if out = [] then ''.'' else out)"

text \<open>
  \<^verbatim>\<open>filepath.Join(path, name)\<close>: the elements that are not empty, joined by
  slashes and cleaned.
\<close>

definition JoinPath :: "string \<Rightarrow> string \<Rightarrow> string" where
  "JoinPath path name =
     (if path \<noteq> [] then Clean (path @ ''/'' @ name)
      else if name \<noteq> [] then Clean name
      else [])"

definition isDigit :: "char \<Rightarrow> bool" where
  "isDigit c = (CHR ''0'' \<le> c \<and> c \<le> CHR ''9'')"

text \<open>
  \<^verbatim>\<open>regexp.MustCompile(`^(\d+)_(.+)\.sql$`).FindStringSubmatch(filename)\<close>: the
  whole match and the two groups, or nothing. \<^verbatim>\<open>\d+\<close> has to take every leading
  digit, since an underscore must follow it; \<^verbatim>\<open>.\<close> matches any byte but a line
  feed; \<^verbatim>\<open>$\<close> is the end of the text.
\<close>

definition FindStringSubmatch :: "string \<Rightarrow> string list" where
  "FindStringSubmatch filename =
     (let version = takeWhile isDigit filename;
          rest = dropWhile isDigit filename;
          name = take (length rest - 5) (drop 1 rest)
      in if version \<noteq> [] \<and> prefix ''_'' rest \<and> HasSuffix (drop 1 rest) ''.sql''
            \<and> name \<noteq> [] \<and> CHR 0x0A \<notin> set name
         then [filename, version, name] else [])"

text \<open>\<^verbatim>\<open>os.ReadFile\<close>; a directory opens and then cannot be read.\<close>

fun ReadFile :: "string \<Rightarrow> node \<Rightarrow> error + string" where
  "ReadFile path (File content) = Inr content"
| "ReadFile path (BadFile e) = Inl (PathError ''open'' path e)"
| "ReadFile path (Dir entries) = Inl (PathError ''read'' path EISDIR)"
| "ReadFile path (BadDir e) = Inl (PathError ''read'' path EISDIR)"

text \<open>\<^verbatim>\<open>Engine.parseMigrationFile\<close>; \<open>n\<close> is what is at \<open>path\<close>.\<close>

definition parseMigrationFile :: "string \<Rightarrow> node \<Rightarrow> error + MigrationFile" where
  "parseMigrationFile path n =
     (let filename = Base path;
          matches = FindStringSubmatch filename
      in if length matches \<noteq> 3 then
           Inl (New (''invalid migration filename format: '' @ filename))
         else
           let version = matches ! 1; name = matches ! 2 in
           case ReadFile path n of
             Inl err \<Rightarrow> Inl (Errorf ''failed to read file: '' err)
           | Inr content \<Rightarrow>
               let (upSQL, downSQL) = parseSQL content in
               Inr \<lparr>Version = version, Name = name, Path = path,
                    UpSQL = upSQL, DownSQL = downSQL\<rparr>)"

text \<open>
  The function \<^verbatim>\<open>loadMigrationFiles\<close> hands to \<^verbatim>\<open>filepath.WalkDir\<close>, with
  the slice \<^verbatim>\<open>files\<close> it appends to. \<open>d\<close> is the entry at \<open>path\<close>, absent
  when \<^verbatim>\<open>WalkDir\<close> could not even \<^verbatim>\<open>Lstat\<close> the root.
\<close>

definition walkFn ::
  "string \<Rightarrow> node option \<Rightarrow> error option \<Rightarrow> MigrationFile list \<Rightarrow> error + MigrationFile list"
where
  "walkFn path d err files =
     (case err of
        Some e \<Rightarrow> Inl e
      | None \<Rightarrow>
          (case d of
             None \<Rightarrow> Inr files
           | Some n \<Rightarrow>
               if IsDir n \<or> \<not> HasSuffix path ''.sql'' then Inr files
               else case parseMigrationFile path n of
                      Inl e \<Rightarrow> Inl (Errorf (''failed to parse '' @ path @ '': '') e)
                    | Inr file \<Rightarrow> Inr (files @ [file])))"

text \<open>
  \<^verbatim>\<open>filepath.walkDir\<close>: the function is called on the entry first; a directory
  is then listed (a failure to list it is reported to the function, which
  returns it) and its entries are walked in order. The first error ends the
  walk.
\<close>

fun walkDir :: "string \<Rightarrow> node \<Rightarrow> MigrationFile list \<Rightarrow> error + MigrationFile list"
and walkEntries ::
  "string \<Rightarrow> (string \<times> node) list \<Rightarrow> MigrationFile list \<Rightarrow> error + MigrationFile list"
where
  "walkDir path (Dir entries) files =
     (case walkFn path (Some (Dir entries)) None files of
        Inl e \<Rightarrow> Inl e
      | Inr files' \<Rightarrow> walkEntries path entries files')"
| "walkDir path (BadDir e) files =
     (case walkFn path (Some (BadDir e)) None files of
        Inl e' \<Rightarrow> Inl e'
      | Inr files' \<Rightarrow> walkFn path (Some (BadDir e)) (Some (PathError ''open'' path e)) files')"
| "walkDir path (File content) files = walkFn path (Some (File content)) None files"
| "walkDir path (BadFile e) files = walkFn path (Some (BadFile e)) None files"
| "walkEntries path [] files = Inr files"
| "walkEntries path ((name, n) # entries) files =
     (case walkDir (JoinPath path name) n files of
        Inl e \<Rightarrow> Inl e
      | Inr files' \<Rightarrow> walkEntries path entries files')"

text \<open>
  \<^verbatim>\<open>filepath.WalkDir(root, fn)\<close>. The source is what \<^verbatim>\<open>os.Lstat(root)\<close>
  finds: \<open>Inl ENOENT\<close> when nothing is there.
\<close>

definition WalkDir :: "string \<Rightarrow> errno + node \<Rightarrow> error + MigrationFile list" where
  "WalkDir root source =
     (case source of
        Inl e \<Rightarrow> walkFn root None (Some (PathError ''lstat'' root e)) []
      | Inr n \<Rightarrow> walkDir root n [])"

text \<open>
  \<^verbatim>\<open>Engine.loadMigrationFiles\<close>. \<^verbatim>\<open>sort.Slice\<close> sorts by \<^verbatim>\<open>Version\<close>
  with Go's string order and promises no order among files of equal version.
  \<open>sort_key\<close> is a stable insertion sort, which is what \<^verbatim>\<open>sort.Slice\<close> runs
  on slices of at most twelve elements; on longer slices the code may order
  files of equal version differently. The properties below are stated on the
  list discovery returns and use of its order only that it is sorted by
  version.
\<close>

definition loadMigrationFiles :: "string \<Rightarrow> errno + node \<Rightarrow> error + MigrationFile list" where
  "loadMigrationFiles migrationsDir source =
     (case WalkDir migrationsDir source of
        Inl err \<Rightarrow> Inl err
      | Inr files \<Rightarrow> Inr (sort_key MigrationFile.Version files))"

subsection \<open>Version allocation\<close>

text \<open>Go's \<^verbatim>\<open>int\<close> on a 64-bit platform.\<close>

type_synonym int64 = "64 word"

definition digit_val :: "char \<Rightarrow> nat" where
  "digit_val c = of_char c - 48"

definition decimal :: "string \<Rightarrow> nat" where
  "decimal s = foldl (\<lambda>n c. 10 * n + digit_val c) 0 s"

text \<open>
  \<^verbatim>\<open>strconv.Atoi\<close>: an optional sign, then decimal digits and nothing else; the
  value has to fit a signed 64-bit integer.
\<close>

definition Atoi :: "string \<Rightarrow> error + int64" where
  "Atoi s =
     (let neg = prefix ''-'' s;
          ds = (if prefix ''-'' s \<or> prefix ''+'' s then drop 1 s else s)
      in if ds = [] \<or> \<not> list_all isDigit ds then
           Inl (New (''strconv.Atoi: parsing '' @ [CHR 0x22] @ s @ [CHR 0x22] @ '': invalid syntax''))
         else if (if neg then decimal ds > 2 ^ 63 else decimal ds \<ge> 2 ^ 63) then
           Inl (New (''strconv.Atoi: parsing '' @ [CHR 0x22] @ s @ [CHR 0x22] @ '': value out of range''))
         else Inr (if neg then - word_of_nat (decimal ds) else word_of_nat (decimal ds)))"

text \<open>The decimal digits of a number.\<close>

fun digits :: "nat \<Rightarrow> string" where
  "digits n =
     (if n < 10 then [''0123456789'' ! n] else digits (n div 10) @ [''0123456789'' ! (n mod 10)])"

declare digits.simps [simp del]

text \<open>
  \<^verbatim>\<open>fmt.Sprintf("%03d", n)\<close>: zeros pad the digits to a width of three, the sign
  included; nothing is ever cut.
\<close>

definition Sprintf_03d :: "int \<Rightarrow> string" where
  "Sprintf_03d n =
     (if n < 0 then CHR ''-'' # replicate (2 - length (digits (nat (- n)))) CHR ''0'' @ digits (nat (- n))
      else replicate (3 - length (digits (nat n))) CHR ''0'' @ digits (nat n))"

text \<open>
  \<^verbatim>\<open>Engine.getNextVersion\<close>. \<^verbatim>\<open>lastVersion + 1\<close> is Go's addition on
  \<^verbatim>\<open>int\<close>, which wraps around.
\<close>

definition getNextVersion :: "string \<Rightarrow> errno + node \<Rightarrow> error + string" where
  "getNextVersion migrationsDir source =
     (case loadMigrationFiles migrationsDir source of
        Inl err \<Rightarrow> if IsNotExist err then Inr ''001'' else Inl err
      | Inr files \<Rightarrow>
          if length files = 0 then Inr ''001''
          else
            let lastFile = files ! (length files - 1) in
            case Atoi (MigrationFile.Version lastFile) of
              Inl err \<Rightarrow> Inl (New (''invalid version format: '' @ MigrationFile.Version lastFile))
            | Inr lastVersion \<Rightarrow>
                let nextVersion = lastVersion + 1 in
                Inr (Sprintf_03d (sint nextVersion)))"

subsection \<open>The store: \<^verbatim>\<open>storage.TursoStorage\<close>\<close>

text \<open>
  What the store sends to the database: a migration body inside a transaction
  (\<^verbatim>\<open>ExecuteSQL\<close>), the \<^verbatim>\<open>INSERT\<close> of a ledger row with its version and
  name (\<^verbatim>\<open>RecordMigration\<close>), the \<^verbatim>\<open>DELETE\<close> of the rows of a version
  (\<^verbatim>\<open>RemoveMigration\<close>), and the \<^verbatim>\<open>SELECT\<close> of the ledger
  (\<^verbatim>\<open>GetAppliedMigrations\<close>).
\<close>

datatype statement =
    Body string
  | INSERT string string
  | DELETE string
  | SELECT

text \<open>
  The database server and the connection to it are not code of this
  repository. They are a parameter:
  \<^item> \<open>run sql (ledger, tables)\<close> is what executing and committing the body
    \<open>sql\<close> does to the ledger table and to the other tables, or the error
    it fails with;
  \<^item> \<open>fault sent\<close> is the error, if any, that the connection answers the
    last statement of \<open>sent\<close> with, given all that was sent before;
  \<^item> \<open>now sent\<close> is what \<^verbatim>\<open>time.Now()\<close> returns at that moment.
\<close>

record 'd libsql =
  run :: "string \<Rightarrow> Migration list \<times> 'd \<Rightarrow> error + Migration list \<times> 'd"
  fault :: "statement list \<Rightarrow> error option"
  now :: "statement list \<Rightarrow> nat"

text \<open>
  The world the engine acts on: the rows of \<^verbatim>\<open>schema_migrations\<close>, the rest
  of the database, the statements sent so far, and the lines printed so far.
\<close>

record 'd world =
  schema_migrations :: "Migration list"
  tables :: 'd
  sent :: "statement list"
  stdout :: "string list"

definition send :: "statement \<Rightarrow> 'd world \<Rightarrow> 'd world" where
  "send st w = w\<lparr>sent := sent w @ [st]\<rparr>"

definition Println :: "string \<Rightarrow> 'd world \<Rightarrow> 'd world" where
  "Println line w = w\<lparr>stdout := stdout w @ [line]\<rparr>"

text \<open>
  \<^verbatim>\<open>TursoStorage.ExecuteSQL\<close>: begin, execute, commit. On an error the deferred
  \<^verbatim>\<open>tx.Rollback()\<close> leaves the database as it was.
\<close>

definition ExecuteSQL :: "'d libsql \<Rightarrow> string \<Rightarrow> 'd world \<Rightarrow> error option \<times> 'd world" where
  "ExecuteSQL drv sql w =
     (let w1 = send (Body sql) w in
      case fault drv (sent w1) of
        Some err \<Rightarrow> (Some err, w1)
      | None \<Rightarrow>
          (case run drv sql (schema_migrations w1, tables w1) of
             Inl err \<Rightarrow> (Some err, w1)
           | Inr (ledger, data) \<Rightarrow> (None, w1\<lparr>schema_migrations := ledger, tables := data\<rparr>)))"

text \<open>
  \<^verbatim>\<open>TursoStorage.RecordMigration\<close>: \<^verbatim>\<open>INSERT INTO schema_migrations\<close>.
  \<^verbatim>\<open>version\<close> is the table's primary key, so a second row of a version is
  refused.
\<close>

definition RecordMigration ::
  "'d libsql \<Rightarrow> string \<Rightarrow> string \<Rightarrow> 'd world \<Rightarrow> error option \<times> 'd world"
where
  "RecordMigration drv version name w =
     (let w1 = send (INSERT version name) w in
      case fault drv (sent w1) of
        Some err \<Rightarrow> (Some err, w1)
      | None \<Rightarrow>
          if version \<in> set (map Migration.Version (schema_migrations w1)) then
            (Some (DriverError ''UNIQUE constraint failed: schema_migrations.version''), w1)
          else
            (None, w1\<lparr>schema_migrations := schema_migrations w1 @
               [\<lparr>Migration.Version = version, Name = name, AppliedAt = now drv (sent w1)\<rparr>]\<rparr>))"

text \<open>\<^verbatim>\<open>TursoStorage.RemoveMigration\<close>:
  \<^verbatim>\<open>DELETE FROM schema_migrations WHERE version = ?\<close>.\<close>

definition RemoveMigration ::
  "'d libsql \<Rightarrow> string \<Rightarrow> 'd world \<Rightarrow> error option \<times> 'd world"
where
  "RemoveMigration drv version w =
     (let w1 = send (DELETE version) w in
      case fault drv (sent w1) of
        Some err \<Rightarrow> (Some err, w1)
      | None \<Rightarrow>
          (None, w1\<lparr>schema_migrations :=
             filter (\<lambda>m. Migration.Version m \<noteq> version) (schema_migrations w1)\<rparr>))"

text \<open>\<^verbatim>\<open>TursoStorage.GetAppliedMigrations\<close>:
  \<^verbatim>\<open>SELECT ... FROM schema_migrations ORDER BY version ASC\<close>.\<close>

definition GetAppliedMigrations ::
  "'d libsql \<Rightarrow> 'd world \<Rightarrow> (error + Migration list) \<times> 'd world"
where
  "GetAppliedMigrations drv w =
     (let w1 = send SELECT w in
      case fault drv (sent w1) of
        Some err \<Rightarrow> (Inl err, w1)
      | None \<Rightarrow> (Inr (sort_key Migration.Version (schema_migrations w1)), w1))"

subsection \<open>The engine: \<^verbatim>\<open>Up\<close> and \<^verbatim>\<open>Down\<close>\<close>

text \<open>
  The loop \<^verbatim>\<open>for _, file := range files\<close> of \<^verbatim>\<open>Engine.Up\<close>, on the files
  still to come, with \<^verbatim>\<open>appliedSet\<close> and \<^verbatim>\<open>appliedCount\<close>. (The counter is
  a Go \<^verbatim>\<open>int\<close>; it counts files held in memory and cannot overflow.)
\<close>

fun Up_loop ::
  "'d libsql \<Rightarrow> string set \<Rightarrow> MigrationFile list \<Rightarrow> nat \<Rightarrow> 'd world \<Rightarrow> (error + nat) \<times> 'd world"
where
  "Up_loop drv appliedSet [] appliedCount w = (Inr appliedCount, w)"
| "Up_loop drv appliedSet (file # files) appliedCount w =
     (if MigrationFile.Version file \<in> appliedSet then
        Up_loop drv appliedSet files appliedCount w
      else
        let w1 = Println (''Applying migration '' @ MigrationFile.Version file @ '': '' @
                          MigrationFile.Name file) w in
        case ExecuteSQL drv (UpSQL file) w1 of
          (Some err, w2) \<Rightarrow>
            (Inl (Errorf (''failed to execute migration '' @ MigrationFile.Version file @ '': '') err), w2)
        | (None, w2) \<Rightarrow>
            (case RecordMigration drv (MigrationFile.Version file) (MigrationFile.Name file) w2 of
               (Some err, w3) \<Rightarrow>
                 (Inl (Errorf (''failed to record migration '' @ MigrationFile.Version file @ '': '') err), w3)
             | (None, w3) \<Rightarrow> Up_loop drv appliedSet files (appliedCount + 1) w3))"

text \<open>\<^verbatim>\<open>Engine.Up\<close>; \<open>source\<close> is what is at \<^verbatim>\<open>e.migrationsDir\<close>.\<close>

definition Up ::
  "'d libsql \<Rightarrow> string \<Rightarrow> errno + node \<Rightarrow> 'd world \<Rightarrow> error option \<times> 'd world"
where
  "Up drv migrationsDir source w =
     (case loadMigrationFiles migrationsDir source of
        Inl err \<Rightarrow> (Some (Errorf ''failed to load migration files: '' err), w)
      | Inr files \<Rightarrow>
          if length files = 0 then (None, Println ''No migrations found'' w)
          else
            case GetAppliedMigrations drv w of
              (Inl err, w1) \<Rightarrow> (Some (Errorf ''failed to get applied migrations: '' err), w1)
            | (Inr applied, w1) \<Rightarrow>
                let appliedSet = set (map Migration.Version applied) in
                case Up_loop drv appliedSet files 0 w1 of
                  (Inl err, w2) \<Rightarrow> (Some err, w2)
                | (Inr appliedCount, w2) \<Rightarrow>
                    if appliedCount = 0 then (None, Println ''No pending migrations'' w2)
                    else (None, Println (''Applied '' @ digits appliedCount @ '' migration(s)'') w2))"

text \<open>\<^verbatim>\<open>Engine.Down\<close>. The search loop with its \<^verbatim>\<open>break\<close> is \<open>find\<close>: the
  first file of the version.\<close>

definition Down ::
  "'d libsql \<Rightarrow> string \<Rightarrow> errno + node \<Rightarrow> 'd world \<Rightarrow> error option \<times> 'd world"
where
  "Down drv migrationsDir source w =
     (case GetAppliedMigrations drv w of
        (Inl err, w1) \<Rightarrow> (Some (Errorf ''failed to get applied migrations: '' err), w1)
      | (Inr applied, w1) \<Rightarrow>
          if length applied = 0 then (None, Println ''No migrations to rollback'' w1)
          else
            let lastMigration = applied ! (length applied - 1) in
            case loadMigrationFiles migrationsDir source of
              Inl err \<Rightarrow> (Some (Errorf ''failed to load migration files: '' err), w1)
            | Inr files \<Rightarrow>
                (case find (\<lambda>file. MigrationFile.Version file = Migration.Version lastMigration) files of
                   None \<Rightarrow>
                     (Some (New (''migration file not found for version '' @
                                 Migration.Version lastMigration)), w1)
                 | Some migrationFile \<Rightarrow>
                     if DownSQL migrationFile = [] then
                       (Some (New (''no DOWN migration found for version '' @
                                   Migration.Version lastMigration)), w1)
                     else
                       let w2 = Println (''Rolling back migration '' @
                                  MigrationFile.Version migrationFile @ '': '' @
                                  MigrationFile.Name migrationFile) w1 in
                       case ExecuteSQL drv (DownSQL migrationFile) w2 of
                         (Some err, w3) \<Rightarrow>
                           (Some (Errorf (''failed to execute rollback for '' @
                                     MigrationFile.Version migrationFile @ '': '') err), w3)
                       | (None, w3) \<Rightarrow>
                           (case RemoveMigration drv (MigrationFile.Version migrationFile) w3 of
                              (Some err, w4) \<Rightarrow>
                                (Some (Errorf (''failed to remove migration record '' @
                                          MigrationFile.Version migrationFile @ '': '') err), w4)
                            | (None, w4) \<Rightarrow>
                                (None, Println ''Migration rolled back successfully'' w4))))"

subsection \<open>Notions the properties of discovery are stated with\<close>

text \<open>
  The filename grammar \<^verbatim>\<open>^(\d+)_(.+)\.sql$\<close> in words: one or more digits, an
  underscore, one or more characters other than a line feed, and
  \<^verbatim>\<open>.sql\<close> at the end.
\<close>

definition matches_grammar :: "string \<Rightarrow> bool" where
  "matches_grammar filename =
     (\<exists>version name. filename = version @ ''_'' @ name @ ''.sql'' \<and>
        version \<noteq> [] \<and> list_all isDigit version \<and> name \<noteq> [] \<and> CHR 0x0A \<notin> set name)"

text \<open>
  Every entry of a source that is no directory, with its path: the files
  beneath it, at any depth.
\<close>

fun files_of :: "string \<Rightarrow> node \<Rightarrow> (string \<times> node) list"
and files_of_entries :: "string \<Rightarrow> (string \<times> node) list \<Rightarrow> (string \<times> node) list"
where
  "files_of path (Dir entries) = files_of_entries path entries"
| "files_of path (BadDir e) = []"
| "files_of path (File content) = [(path, File content)]"
| "files_of path (BadFile e) = [(path, BadFile e)]"
| "files_of_entries path [] = []"
| "files_of_entries path ((name, n) # entries) =
     files_of (JoinPath path name) n @ files_of_entries path entries"

text \<open>A source in which every directory can be listed and every file read.\<close>

fun readable :: "node \<Rightarrow> bool"
and readable_entries :: "(string \<times> node) list \<Rightarrow> bool"
where
  "readable (Dir entries) = readable_entries entries"
| "readable (BadDir e) = False"
| "readable (File content) = True"
| "readable (BadFile e) = False"
| "readable_entries [] = True"
| "readable_entries ((name, n) # entries) = (readable n \<and> readable_entries entries)"

text \<open>
  A path with the recognised extension whose filename is outside the grammar,
  and the error discovery reports for it.
\<close>

definition nonconforming :: "string \<Rightarrow> bool" where
  "nonconforming path = (HasSuffix path ''.sql'' \<and> \<not> matches_grammar (Base path))"

definition parse_error :: "string \<Rightarrow> error" where
  "parse_error path = Errorf (''failed to parse '' @ path @ '': '')
     (New (''invalid migration filename format: '' @ Base path))"

text \<open>Files whose versions are runs of one or more digits.\<close>

definition digit_versions :: "MigrationFile list \<Rightarrow> bool" where
  "digit_versions fs =
     (\<forall>f \<in> set fs. MigrationFile.Version f \<noteq> [] \<and> list_all isDigit (MigrationFile.Version f))"

text \<open>A source used in the examples below.\<close>

definition example_source :: "errno + node" where
  "example_source =
     Inr (Dir [(''002_create_posts.sql'', File ''-- ==== UP ====
CREATE TABLE posts (id TEXT);
-- ==== DOWN ====
DROP TABLE posts;''),
               (''nested'', Dir [(''001_create_users.sql'', File ''-- Migration: users
-- ==== UP ====
CREATE TABLE users (id TEXT);
-- ==== DOWN ====
DROP TABLE users;'')]),
               (''README.md'', File ''notes'')])"

subsection \<open>Body extraction, as the specification words it\<close>

definition up_token :: string where
  "up_token = ''==== UP ====''"

definition down_token :: string where
  "down_token = ''==== DOWN ====''"

text \<open>A marker line contains one of the two tokens.\<close>

definition is_marker :: "string \<Rightarrow> bool" where
  "is_marker l = (Contains l up_token \<or> Contains l down_token)"

text \<open>
  All the lines of a content: cut at the line feeds, each without its trailing
  carriage return.
\<close>

definition lines_of :: "string \<Rightarrow> string list" where
  "lines_of content = map dropCR (split_nl [] content)"

text \<open>
  The section in force at line \<open>i\<close>: the one the last marker line before
  line \<open>i\<close> switched to (forward when that line contains the forward token,
  backward otherwise), and \<open>start\<close> when no marker line comes before.
\<close>

definition section_at :: "string \<Rightarrow> string list \<Rightarrow> nat \<Rightarrow> string" where
  "section_at start ls i =
     (case filter is_marker (rev (take i ls)) of
        [] \<Rightarrow> start
      | m # ms \<Rightarrow> if Contains m up_token then ''up'' else ''down'')"

text \<open>The lines collected into section \<open>sec\<close>: those that are no marker line
  and stand where \<open>sec\<close> is in force, in their order.\<close>

definition collected :: "string \<Rightarrow> string \<Rightarrow> string list \<Rightarrow> string list" where
  "collected start sec ls =
     map (\<lambda>i. ls ! i)
       (filter (\<lambda>i. \<not> is_marker (ls ! i) \<and> section_at start ls i = sec) [0..<length ls])"

text \<open>
  No section is in force before the first marker line; each body is its
  collected lines joined by line feeds, then trimmed.
\<close>

definition parseSQL_spec :: "string \<Rightarrow> string \<times> string" where
  "parseSQL_spec content =
     (TrimSpace (Join (collected [] ''up'' (lines_of content)) [CHR 0x0A]),
      TrimSpace (Join (collected [] ''down'' (lines_of content)) [CHR 0x0A]))"

text \<open>The section in force after a line.\<close>

definition next_section :: "string \<Rightarrow> string \<Rightarrow> string" where
  "next_section sec l =
     (if Contains l up_token then ''up'' else if Contains l down_token then ''down'' else sec)"

subsection \<open>Notions the properties of the engine are stated with\<close>

text \<open>The versions in the ledger: the applied set.\<close>

definition ledger_versions :: "'d world \<Rightarrow> string set" where
  "ledger_versions w = set (map Migration.Version (schema_migrations w))"

text \<open>The ledger's entries without their timestamps, in the order of insertion.\<close>

definition ledger_entries :: "'d world \<Rightarrow> (string \<times> string) list" where
  "ledger_entries w = map (\<lambda>m. (Migration.Version m, Migration.Name m)) (schema_migrations w)"

definition entry :: "MigrationFile \<Rightarrow> string \<times> string" where
  "entry file = (MigrationFile.Version file, MigrationFile.Name file)"

text \<open>The definitions whose version is not in the applied set, in their order.\<close>

definition pending :: "string set \<Rightarrow> MigrationFile list \<Rightarrow> MigrationFile list" where
  "pending applied files = filter (\<lambda>file. MigrationFile.Version file \<notin> applied) files"

text \<open>
  Applying one definition: its forward body is executed, then its ledger
  entry is written; and the line \<^verbatim>\<open>Up\<close> prints before.
\<close>

definition apply_statements :: "MigrationFile \<Rightarrow> statement list" where
  "apply_statements file =
     [Body (UpSQL file), INSERT (MigrationFile.Version file) (MigrationFile.Name file)]"

definition applying_line :: "MigrationFile \<Rightarrow> string" where
  "applying_line file =
     ''Applying migration '' @ MigrationFile.Version file @ '': '' @ MigrationFile.Name file"


text \<open>The line \<^verbatim>\<open>Down\<close> prints before it executes a backward body.\<close>

definition rollback_line :: "MigrationFile \<Rightarrow> string" where
  "rollback_line file =
     ''Rolling back migration '' @ MigrationFile.Version file @ '': '' @ MigrationFile.Name file"

text \<open>
  An assumption on the migration bodies, not on the engine: no body writes to
  the ledger table.
\<close>

definition keeps_ledger :: "'d libsql \<Rightarrow> bool" where
  "keeps_ledger drv =
     (\<forall>sql ledger data ledger' data'.
        run drv sql (ledger, data) = Inr (ledger', data') \<longrightarrow> ledger' = ledger)"

text \<open>
  A database for the examples: its tables are a log of the bodies executed,
  the body \<^verbatim>\<open>boom\<close> fails, the connection never does, and the clock
  counts the statements sent.
\<close>

definition example_db :: "string list libsql" where
  "example_db =
     \<lparr>run = (\<lambda>sql (ledger, data).
               if sql = ''boom'' then Inl (DriverError ''syntax error'')
               else Inr (ledger, data @ [sql])),
      fault = (\<lambda>sent. None),
      now = length\<rparr>"

definition empty_world :: "string list world" where
  "empty_world = \<lparr>schema_migrations = [], tables = [], sent = [], stdout = []\<rparr>"


text \<open>A source with two definitions of the same version.\<close>

definition duplicate_source :: "errno + node" where
  "duplicate_source =
     Inr (Dir [(''001_a.sql'', File ''-- ==== UP ====
CREATE TABLE a (id TEXT);''),
               (''more'', Dir [(''001_b.sql'', File ''-- ==== UP ====
CREATE TABLE b (id TEXT);'')])])"



text \<open>
  A ledger for the examples: version 002 was applied before version 001.
  And a source whose definition 002 has no backward body.
\<close>

definition out_of_order_world :: "string list world" where
  "out_of_order_world =
     \<lparr>schema_migrations =
        [\<lparr>Migration.Version = ''002'', Name = ''create_posts'', AppliedAt = 10\<rparr>,
         \<lparr>Migration.Version = ''001'', Name = ''create_users'', AppliedAt = 20\<rparr>],
      tables = [], sent = [], stdout = []\<rparr>"

definition one_way_source :: "errno + node" where
  "one_way_source =
     Inr (Dir [(''001_create_users.sql'', File ''-- ==== UP ====
CREATE TABLE users (id TEXT);
-- ==== DOWN ====
DROP TABLE users;''),
               (''002_create_posts.sql'', File ''-- ==== UP ====
CREATE TABLE posts (id TEXT);
-- ==== DOWN ====
'')])"

section \<open>Properties\<close>

lemmas discovery_defs =
  loadMigrationFiles_def WalkDir_def walkFn_def parseMigrationFile_def Base_def JoinPath_def
  Clean_def clean_step_def HasSuffix_def FindStringSubmatch_def isDigit_def

lemmas parse_defs =
  parseSQL_def Scan_def MaxScanTokenSize_def dropCR_def TrimSpace_def TrimLeftSpace_def
  TrimRightSpace_def white_space_def

subsection \<open>Discovery\<close>

text \<open>\<^verbatim>\<open>filepath.Clean\<close> and \<^verbatim>\<open>filepath.Join\<close> on some paths.\<close>

lemma Clean_examples:
  "Clean ''./migrations'' = ''migrations''"
  "Clean ''a//b/'' = ''a/b''"
  "Clean ''a/../../b'' = ''../b''"
  "Clean ''/../a'' = ''/a''"
  "Clean [] = ''.''"
  "JoinPath ''./migrations'' ''001_a.sql'' = ''migrations/001_a.sql''"
  by (simp_all add: JoinPath_def Clean_def clean_step_def)

lemma FindStringSubmatch_groups:
  assumes "version \<noteq> []" "list_all isDigit version" "name \<noteq> []" "CHR 0x0A \<notin> set name"
  shows "FindStringSubmatch (version @ ''_'' @ name @ ''.sql'') =
           [version @ ''_'' @ name @ ''.sql'', version, name]"
proof -
  have nd: "\<not> isDigit CHR ''_''" by (simp add: isDigit_def)
  have tw: "takeWhile isDigit (version @ ''_'' @ name @ ''.sql'') = version"
    using assms(2) nd by (induction version) auto
  have dw: "dropWhile isDigit (version @ ''_'' @ name @ ''.sql'') = ''_'' @ name @ ''.sql''"
    using assms(2) nd by (induction version) auto
  show ?thesis
    unfolding FindStringSubmatch_def tw dw Let_def using assms
    by (simp add: HasSuffix_def)
qed

text \<open>The model of the regular expression accepts exactly the grammar.\<close>

lemma FindStringSubmatch_matches:
  "FindStringSubmatch filename \<noteq> [] \<longleftrightarrow> matches_grammar filename"
proof
  assume "FindStringSubmatch filename \<noteq> []"
  then have v: "takeWhile isDigit filename \<noteq> []"
    and p: "prefix ''_'' (dropWhile isDigit filename)"
    and s: "HasSuffix (drop 1 (dropWhile isDigit filename)) ''.sql''"
    and n: "take (length (dropWhile isDigit filename) - 5) (drop 1 (dropWhile isDigit filename)) \<noteq> []"
           "CHR 0x0A \<notin> set (take (length (dropWhile isDigit filename) - 5) (drop 1 (dropWhile isDigit filename)))"
    by (auto simp: FindStringSubmatch_def Let_def split: if_splits)
  define r where "r = drop 1 (dropWhile isDigit filename)"
  from p have dw: "dropWhile isDigit filename = ''_'' @ r"
    by (auto simp: r_def prefix_def)
  from s have "r = take (length r - 4) r @ ''.sql''"
    unfolding r_def [symmetric] HasSuffix_def
    by (metis append_take_drop_id length_Cons list.size(3) One_nat_def numeral_3_eq_3 numeral_eq_Suc pred_numeral_simps(2) semiring_norm(26,27))
  moreover have "length (dropWhile isDigit filename) - 5 = length r - 4"
    by (simp add: dw)
  ultimately have r: "r = take (length (dropWhile isDigit filename) - 5) r @ ''.sql''"
    by simp
  have "filename = takeWhile isDigit filename @ dropWhile isDigit filename" by simp
  then have "filename = takeWhile isDigit filename @ ''_'' @
      take (length (dropWhile isDigit filename) - 5) r @ ''.sql''"
    using dw r by (metis append.assoc)
  moreover have "list_all isDigit (takeWhile isDigit filename)"
    by (simp add: list_all_iff) (meson set_takeWhileD)
  ultimately show "matches_grammar filename"
    unfolding matches_grammar_def using v n unfolding r_def [symmetric] by blast
next
  assume "matches_grammar filename"
  then show "FindStringSubmatch filename \<noteq> []"
    by (auto simp: matches_grammar_def FindStringSubmatch_groups simp del: append.simps)
qed

lemma length_FindStringSubmatch:
  "length (FindStringSubmatch f) \<noteq> 3 \<longleftrightarrow> \<not> matches_grammar f"
  unfolding FindStringSubmatch_matches [symmetric]
  by (simp add: FindStringSubmatch_def Let_def)

lemma walkFn_file:
  assumes "\<not> IsDir n"
  shows "(walkFn path (Some n) None files = Inr fs \<longrightarrow> \<not> nonconforming path) \<and>
         (walkFn path (Some n) None files = Inl e \<longrightarrow> (\<exists>c. n = File c) \<longrightarrow>
            nonconforming path \<and> e = parse_error path)"
  using assms
  by (cases n)
     (auto simp: walkFn_def parseMigrationFile_def nonconforming_def parse_error_def Let_def
        length_FindStringSubmatch split: sum.splits if_splits prod.splits)

text \<open>
  A walk that succeeds met no nonconforming file; a walk that fails on a
  readable source failed on a nonconforming file.
\<close>

lemma walk_nonconforming:
  "(walkDir path n files = Inr fs \<longrightarrow> (\<forall>(p, n') \<in> set (files_of path n). \<not> nonconforming p)) \<and>
   (walkDir path n files = Inl e \<longrightarrow> readable n \<longrightarrow>
      (\<exists>(p, n') \<in> set (files_of path n). nonconforming p \<and> e = parse_error p))"
  "(walkEntries path entries files = Inr fs \<longrightarrow>
      (\<forall>(p, n') \<in> set (files_of_entries path entries). \<not> nonconforming p)) \<and>
   (walkEntries path entries files = Inl e \<longrightarrow> readable_entries entries \<longrightarrow>
      (\<exists>(p, n') \<in> set (files_of_entries path entries). nonconforming p \<and> e = parse_error p))"
proof (induction path n files and path entries files arbitrary: fs e and fs e
       rule: walkDir_walkEntries.induct)
  case (1 path entries files)
  then show ?case
    by (auto simp: walkFn_def split: sum.splits)
next
  case (2 path en files)
  then show ?case by (auto simp: walkFn_def split: sum.splits)
next
  case (3 path content files)
  then show ?case using walkFn_file [of "File content" path files] by auto
next
  case (4 path en files)
  then show ?case using walkFn_file [of "BadFile en" path files] by auto
next
  case (5 path files)
  then show ?case by simp
next
  case (6 path name n entries files)
  then show ?case
    by (auto split: sum.splits) blast+
qed

lemma sorted_loadMigrationFiles:
  "loadMigrationFiles dir source = Inr files \<Longrightarrow> sorted (map MigrationFile.Version files)"
  by (auto simp: loadMigrationFiles_def split: sum.splits)

lemma loadMigrationFiles_example:
  "loadMigrationFiles ''migrations'' example_source =
     Inr [\<lparr>MigrationFile.Version = ''001'', Name = ''create_users'',
           Path = ''migrations/nested/001_create_users.sql'',
           UpSQL = ''CREATE TABLE users (id TEXT);'', DownSQL = ''DROP TABLE users;''\<rparr>,
          \<lparr>MigrationFile.Version = ''002'', Name = ''create_posts'',
           Path = ''migrations/002_create_posts.sql'',
           UpSQL = ''CREATE TABLE posts (id TEXT);'', DownSQL = ''DROP TABLE posts;''\<rparr>]"
  by (simp add: example_source_def discovery_defs parse_defs)

text \<open>
  C5, as the code has it. Discovery over an empty source returns the empty
  sequence. Over a source that does not exist it fails: \<^verbatim>\<open>WalkDir\<close> hands the
  \<^verbatim>\<open>Lstat\<close> error to the walk function, which returns it (only version
  allocation turns that error into a default). Whenever discovery returns a
  sequence, the sequence is sorted ascending by version, in string order.
\<close>

theorem discovery_empty_missing_sorted:
  "loadMigrationFiles dir (Inr (Dir [])) = Inr [] \<and>
   loadMigrationFiles dir (Inl ENOENT) = Inl (PathError ''lstat'' dir ENOENT) \<and>
   IsNotExist (PathError ''lstat'' dir ENOENT) \<and>
   (\<forall>files. loadMigrationFiles dir source = Inr files \<longrightarrow>
      sorted (map MigrationFile.Version files))"
  by (simp add: sorted_loadMigrationFiles) (simp add: loadMigrationFiles_def WalkDir_def walkFn_def)

theorem discovery_empty_missing_sorted_witness:
  "loadMigrationFiles ''migrations'' (Inr (Dir [])) = Inr [] \<and>
   loadMigrationFiles ''migrations'' (Inl ENOENT) = Inl (PathError ''lstat'' ''migrations'' ENOENT) \<and>
   (\<exists>files. loadMigrationFiles ''migrations'' example_source = Inr files \<and> length files = 2 \<and>
      sorted (map MigrationFile.Version files))"
  using discovery_empty_missing_sorted [of "''migrations''" example_source]
  by (simp add: loadMigrationFiles_example)

text \<open>
  C5 as stated fails: over a source that does not exist, discovery returns an
  error and no sequence.
\<close>

theorem discovery_missing_source_fails:
  "loadMigrationFiles ''migrations'' (Inl ENOENT) =
     Inl (PathError ''lstat'' ''migrations'' ENOENT)"
  by (simp add: loadMigrationFiles_def WalkDir_def walkFn_def)

text \<open>
  C7. When a file anywhere beneath the source has the extension \<^verbatim>\<open>.sql\<close> and a
  filename outside the grammar, discovery returns an error and no list of
  definitions, whatever else the source holds. On a readable source that
  error is the filename error of a nonconforming file of the source.
\<close>

theorem discovery_rejects_nonconforming:
  assumes "(path, n) \<in> set (files_of migrationsDir root)"
    and "HasSuffix path ''.sql''"
    and "\<not> matches_grammar (Base path)"
  shows "\<exists>err. loadMigrationFiles migrationsDir (Inr root) = Inl err \<and>
           (readable root \<longrightarrow>
              (\<exists>(p, n') \<in> set (files_of migrationsDir root). nonconforming p \<and> err = parse_error p))"
proof (cases "walkDir migrationsDir root []")
  case (Inl err)
  with walk_nonconforming(1) [of migrationsDir root "[]" _ err] show ?thesis
    by (auto simp: loadMigrationFiles_def WalkDir_def)
next
  case (Inr fs)
  with walk_nonconforming(1) [of migrationsDir root "[]" fs] assms show ?thesis
    by (auto simp: nonconforming_def)
qed

theorem discovery_rejects_nonconforming_witness:
  "(''migrations/notes.sql'', File ''SELECT 1;'') \<in>
      set (files_of ''migrations''
             (Dir [(''001_init.sql'', File ''x''), (''notes.sql'', File ''SELECT 1;'')])) \<and>
   HasSuffix ''migrations/notes.sql'' ''.sql'' \<and>
   \<not> matches_grammar (Base ''migrations/notes.sql'') \<and>
   loadMigrationFiles ''migrations''
      (Inr (Dir [(''001_init.sql'', File ''x''), (''notes.sql'', File ''SELECT 1;'')])) =
     Inl (parse_error ''migrations/notes.sql'')"
proof -
  let ?root = "Dir [(''001_init.sql'', File ''x''), (''notes.sql'', File ''SELECT 1;'')]"
  have h1: "(''migrations/notes.sql'', File ''SELECT 1;'') \<in> set (files_of ''migrations'' ?root)"
    by (simp add: JoinPath_def Clean_def clean_step_def)
  have h2: "HasSuffix ''migrations/notes.sql'' ''.sql''"
    by (simp add: HasSuffix_def)
  have h3: "\<not> matches_grammar (Base ''migrations/notes.sql'')"
    unfolding FindStringSubmatch_matches [symmetric]
    by (simp add: Base_def FindStringSubmatch_def isDigit_def)
  have r: "readable ?root" by simp
  from discovery_rejects_nonconforming [OF h1 h2 h3] r
  obtain err p n' where
    "loadMigrationFiles ''migrations'' (Inr ?root) = Inl err"
    "(p, n') \<in> set (files_of ''migrations'' ?root)" "nonconforming p" "err = parse_error p"
    by blast
  moreover have "\<not> nonconforming ''migrations/001_init.sql''"
    unfolding nonconforming_def FindStringSubmatch_matches [symmetric]
    by (simp add: Base_def FindStringSubmatch_def isDigit_def HasSuffix_def)
  ultimately have "loadMigrationFiles ''migrations'' (Inr ?root) =
      Inl (parse_error ''migrations/notes.sql'')"
    by (auto simp: JoinPath_def Clean_def clean_step_def)
  with h1 h2 h3 show ?thesis by blast
qed

subsection \<open>Body extraction\<close>

lemmas spec_defs =
  parseSQL_spec_def lines_of_def collected_def section_at_def is_marker_def up_token_def
  down_token_def

lemma Contains_sublist: "Contains s t \<longleftrightarrow> sublist t s"
  by (induction s) (auto simp: sublist_Cons_right)

lemma strip_runes_drop:
  "\<exists>k. strip_runes ws s = drop k s \<and> set (take k s) \<subseteq> \<Union> (set ` set ws)"
proof (induction ws s rule: strip_runes.induct)
  case (1 ws)
  then show ?case by simp
next
  case (2 ws c s)
  show ?case
  proof (cases "find (\<lambda>w. w \<noteq> [] \<and> prefix w (c # s)) ws")
    case None
    then have "strip_runes ws (c # s) = drop 0 (c # s) \<and> set (take 0 (c # s)) \<subseteq> \<Union> (set ` set ws)"
      by simp
    then show ?thesis by blast
  next
    case (Some w)
    then have w: "w \<in> set ws" "prefix w (c # s)"
      by (auto simp: find_Some_iff)
    from 2 [OF Some] obtain k where
      k: "strip_runes ws (drop (length w) (c # s)) = drop k (drop (length w) (c # s))"
         "set (take k (drop (length w) (c # s))) \<subseteq> \<Union> (set ` set ws)"
      by blast
    from w(2) have tw: "take (length w) (c # s) = w"
      by (auto simp: prefix_def)
    have "take (length w + k) (c # s) = w @ take k (drop (length w) (c # s))"
      using tw by (metis take_add)
    with k w(1) have "set (take (length w + k) (c # s)) \<subseteq> \<Union> (set ` set ws)"
      by auto
    moreover have "strip_runes ws (c # s) = drop (length w + k) (c # s)"
      using Some k(1) by (simp add: add.commute)
    ultimately show ?thesis by blast
  qed
qed

lemma sublist_drop_front:
  assumes "tok \<noteq> []" "hd tok \<notin> set (take k s)"
  shows "sublist tok (drop k s) \<longleftrightarrow> sublist tok s"
  using assms
proof (induction k arbitrary: s)
  case 0
  then show ?case by simp
next
  case (Suc k)
  show ?case
  proof (cases s)
    case Nil
    then show ?thesis by simp
  next
    case (Cons x xs)
    with Suc.prems have "\<not> prefix tok (x # xs)"
      by (cases tok) auto
    with Suc Cons show ?thesis
      by (simp add: sublist_Cons_right)
  qed
qed

lemma sublist_strip_runes:
  assumes "tok \<noteq> []" "hd tok \<notin> \<Union> (set ` set ws)"
  shows "sublist tok (strip_runes ws s) \<longleftrightarrow> sublist tok s"
proof -
  from strip_runes_drop [of ws s] obtain k where
    "strip_runes ws s = drop k s" "set (take k s) \<subseteq> \<Union> (set ` set ws)"
    by blast
  with assms sublist_drop_front [of tok k s] show ?thesis by auto
qed

lemma Contains_TrimSpace:
  assumes "tok \<noteq> []" "hd tok \<notin> \<Union> (set ` set white_space)" "last tok \<notin> \<Union> (set ` set white_space)"
  shows "Contains (TrimSpace l) tok \<longleftrightarrow> Contains l tok"
proof -
  have "hd (rev tok) \<notin> \<Union> (set ` set (map rev white_space))"
    using assms by (simp add: hd_rev)
  then have "sublist (rev tok) (strip_runes (map rev white_space) (rev (TrimLeftSpace l)))
      \<longleftrightarrow> sublist (rev tok) (rev (TrimLeftSpace l))"
    using assms(1) by (intro sublist_strip_runes) auto
  then have "sublist tok (TrimSpace l) \<longleftrightarrow> sublist tok (TrimLeftSpace l)"
    by (simp add: TrimSpace_def TrimRightSpace_def sublist_rev_left)
  also have "\<dots> \<longleftrightarrow> sublist tok l"
    unfolding TrimLeftSpace_def using assms by (intro sublist_strip_runes)
  finally show ?thesis by (simp add: Contains_sublist)
qed

lemma Contains_TrimSpace_tokens:
  "Contains (TrimSpace l) ''==== UP ===='' \<longleftrightarrow> Contains l up_token"
  "Contains (TrimSpace l) ''==== DOWN ===='' \<longleftrightarrow> Contains l down_token"
  unfolding up_token_def down_token_def
  by (rule Contains_TrimSpace; simp add: white_space_def)+

lemma section_at_0: "section_at start ls 0 = start"
  by (simp add: section_at_def)

lemma section_at_Suc:
  "section_at start (l # ls) (Suc i) = section_at (next_section start l) ls i"
  by (auto simp: section_at_def next_section_def is_marker_def split: list.splits)

lemma collected_Nil: "collected start sec [] = []"
  by (simp add: collected_def)

lemma collected_Cons:
  "collected start sec (l # ls) =
     (if \<not> is_marker l \<and> start = sec then [l] else []) @ collected (next_section start l) sec ls"
proof -
  have upt: "[0..<length (l # ls)] = 0 # map Suc [0..<length ls]"
    by (simp add: upt_conv_Cons map_Suc_upt del: upt_Suc)
  show ?thesis
    unfolding collected_def upt
    by (simp add: filter_map comp_def section_at_0 section_at_Suc)
qed

lemma parseSQL_loop_collected:
  "parseSQL_loop ls sec upLines downLines =
     (upLines @ collected sec ''up'' ls, downLines @ collected sec ''down'' ls)"
proof (induction ls arbitrary: sec upLines downLines)
  case Nil
  then show ?case by (simp add: collected_Nil)
next
  case (Cons l ls)
  show ?case
    by (simp add: Cons collected_Cons Contains_TrimSpace_tokens next_section_def is_marker_def Let_def)
qed

lemma Scan_lines_of:
  "\<forall>l \<in> set (split_nl [] content). length l < MaxScanTokenSize \<Longrightarrow> Scan content = lines_of content"
proof -
  assume "\<forall>l \<in> set (split_nl [] content). length l < MaxScanTokenSize"
  then have "takeWhile (\<lambda>l. length l < MaxScanTokenSize) (split_nl [] content) = split_nl [] content"
    by (subst takeWhile_eq_all_conv) blast
  then show ?thesis unfolding Scan_def lines_of_def by (rule arg_cong)
qed


lemma split_nl_line:
  "CHR 0x0A \<notin> set xs \<Longrightarrow> split_nl cur (xs @ CHR 0x0A # rest) = (cur @ xs) # split_nl [] rest"
  by (induction xs arbitrary: cur) auto

lemma split_nl_last:
  "CHR 0x0A \<notin> set xs \<Longrightarrow> cur @ xs \<noteq> [] \<Longrightarrow> split_nl cur xs = [cur @ xs]"
  by (induction xs arbitrary: cur) auto

text \<open>
  A line of 65536 bytes ends the scan: the forward body comes out empty,
  though two lines follow the forward marker.
\<close>

lemma parseSQL_long_line:
  "parseSQL (''-- ==== UP ===='' @ [CHR 0x0A] @ replicate 65536 CHR ''x'' @ [CHR 0x0A] @
             ''CREATE TABLE t (id TEXT);'') = ([], [])"
proof -
  have "split_nl [] (''-- ==== UP ===='' @ CHR 0x0A # replicate 65536 CHR ''x'' @ CHR 0x0A #
             ''CREATE TABLE t (id TEXT);'') =
        [''-- ==== UP ===='', replicate 65536 CHR ''x'', ''CREATE TABLE t (id TEXT);'']"
    by (subst split_nl_line, simp, subst split_nl_line, simp, subst split_nl_last, simp_all)
  then have "Scan (''-- ==== UP ===='' @ [CHR 0x0A] @ replicate 65536 CHR ''x'' @ [CHR 0x0A] @
             ''CREATE TABLE t (id TEXT);'') = [''-- ==== UP ====''] "
    by (simp add: Scan_def MaxScanTokenSize_def dropCR_def)
  then show ?thesis
    unfolding parseSQL_def
    by (simp add: TrimSpace_def TrimLeftSpace_def TrimRightSpace_def white_space_def)
qed

lemma parseSQL_spec_example:
  "parseSQL_spec ''-- Migration: users
-- ==== UP ====
CREATE TABLE users (id TEXT);

-- ==== DOWN ====
DROP TABLE users;
'' = (''CREATE TABLE users (id TEXT);'', ''DROP TABLE users;'')"
  by (simp add: parse_defs spec_defs)

text \<open>
  C8, as the code has it. For a content whose lines all fit the scanner's
  buffer (fewer than 65536 bytes each), \<^verbatim>\<open>parseSQL\<close> returns what the
  specification describes, with the forward token taking precedence on a line
  that contains both tokens: a line containing \<^verbatim>\<open>==== UP ====\<close> switches
  collection to the forward body, a line containing \<^verbatim>\<open>==== DOWN ====\<close> and
  not \<^verbatim>\<open>==== UP ====\<close> switches it to the backward body, lines before the
  first marker line are discarded, marker lines are never collected, and each
  body is its collected lines joined by line feeds and trimmed.
\<close>

theorem parseSQL_refines_spec:
  assumes "list_all (\<lambda>l. length l < MaxScanTokenSize) (split_nl [] content)"
  shows "parseSQL content = parseSQL_spec content"
proof -
  from assms have "\<forall>l \<in> set (split_nl [] content). length l < MaxScanTokenSize"
    by (simp add: list_all_iff)
  then show ?thesis
    by (simp add: parseSQL_def parseSQL_spec_def Scan_lines_of parseSQL_loop_collected)
qed

theorem parseSQL_refines_spec_witness:
  "list_all (\<lambda>l. length l < MaxScanTokenSize) (split_nl [] ''-- Migration: users
-- ==== UP ====
CREATE TABLE users (id TEXT);

-- ==== DOWN ====
DROP TABLE users;
'') \<and>
   parseSQL ''-- Migration: users
-- ==== UP ====
CREATE TABLE users (id TEXT);

-- ==== DOWN ====
DROP TABLE users;
'' = (''CREATE TABLE users (id TEXT);'', ''DROP TABLE users;'')"
proof -
  have h: "list_all (\<lambda>l. length l < MaxScanTokenSize) (split_nl [] ''-- Migration: users
-- ==== UP ====
CREATE TABLE users (id TEXT);

-- ==== DOWN ====
DROP TABLE users;
'')"
    by (simp add: MaxScanTokenSize_def)
  from parseSQL_refines_spec [OF h] h show ?thesis
    by (simp only: parseSQL_spec_example)
qed

text \<open>
  C8 as stated fails on a line that contains both tokens: the line below
  contains \<^verbatim>\<open>==== DOWN ====\<close>, yet the line after it is collected into the
  forward body, because \<^verbatim>\<open>parseSQL\<close> tests for \<^verbatim>\<open>==== UP ====\<close> first.
\<close>

theorem parseSQL_down_line_with_up_token:
  "Contains ''-- ==== DOWN ==== (undoes ==== UP ====)'' ''==== DOWN ===='' \<and>
   parseSQL ''-- ==== DOWN ==== (undoes ==== UP ====)
DROP TABLE users;'' = (''DROP TABLE users;'', [])"
  by (simp add: parse_defs)

subsection \<open>Version allocation\<close>

lemma replicate_small:
  "replicate 1 c = [c]" "replicate 2 c = [c, c]" "replicate 3 c = [c, c, c]"
  by (simp_all add: numeral_2_eq_2 numeral_3_eq_3)

lemmas version_defs = getNextVersion_def Atoi_def decimal_def digit_val_def Sprintf_03d_def

lemma decimal_snoc: "decimal (s @ [c]) = 10 * decimal s + digit_val c"
  by (simp add: decimal_def)

lemma digit_lookup:
  assumes "n < 10"
  shows "digit_val (''0123456789'' ! n) = n" and "isDigit (''0123456789'' ! n)"
proof -
  from assms have "n \<in> {0, 1, 2, 3, 4, 5, 6, 7, 8, 9}" by auto
  then show "digit_val (''0123456789'' ! n) = n" and "isDigit (''0123456789'' ! n)"
    by (auto simp: digit_val_def isDigit_def)
qed

lemma decimal_digits: "decimal (digits n) = n"
proof (induction n rule: digits.induct)
  case (1 n)
  show ?case
  proof (cases "n < 10")
    case True
    then show ?thesis
      by (subst digits.simps) (simp add: decimal_def digit_lookup)
  next
    case False
    with 1 show ?thesis
      by (subst digits.simps) (simp add: decimal_snoc digit_lookup)
  qed
qed

lemma isDigit_digits: "list_all isDigit (digits n)"
proof (induction n rule: digits.induct)
  case (1 n)
  then show ?case
    by (subst digits.simps) (simp add: digit_lookup)
qed

lemma decimal_zeros: "decimal (replicate k CHR ''0'' @ s) = decimal s"
proof -
  have "foldl (\<lambda>n c. 10 * n + digit_val c) 0 (replicate k CHR ''0'') = 0"
    by (induction k) (simp_all add: digit_val_def)
  then show ?thesis by (simp add: decimal_def)
qed

text \<open>Padding pads and never cuts: the rendering of a number that is not
  negative has at least three digits and reads back as the number.\<close>

lemma Sprintf_03d_nonneg:
  assumes "0 \<le> n"
  shows "decimal (Sprintf_03d n) = nat n" and "3 \<le> length (Sprintf_03d n)"
    and "list_all isDigit (Sprintf_03d n)"
proof -
  have "isDigit CHR ''0''" by (simp add: isDigit_def)
  then have z: "list_all isDigit (replicate k CHR ''0'')" for k
    by (simp add: list_all_iff)
  from assms show "decimal (Sprintf_03d n) = nat n"
    by (simp add: Sprintf_03d_def decimal_zeros decimal_digits)
  from assms show "3 \<le> length (Sprintf_03d n)"
    by (simp add: Sprintf_03d_def)
  from assms show "list_all isDigit (Sprintf_03d n)"
    by (simp add: Sprintf_03d_def z isDigit_digits)
qed

lemma Atoi_digits:
  assumes "v \<noteq> []" "list_all isDigit v"
  shows "Atoi v = (if decimal v \<ge> 2 ^ 63
                   then Inl (New (''strconv.Atoi: parsing '' @ [CHR 0x22] @ v @ [CHR 0x22] @ '': value out of range''))
                   else Inr (word_of_nat (decimal v)))"
proof -
  from assms obtain c cs where v: "v = c # cs" and c: "isDigit c"
    by (cases v) auto
  from c have "c \<noteq> CHR ''-''" "c \<noteq> CHR ''+''"
    by (auto simp: isDigit_def)
  with v assms show ?thesis
    by (simp add: Atoi_def)
qed

lemma sint_next:
  assumes "d < 2 ^ 63 - 1"
  shows "sint (word_of_nat d + 1 :: int64) = int d + 1"
proof -
  have "(word_of_nat d + 1 :: int64) = word_of_int (int d + 1)"
    by simp
  moreover have "sint (word_of_int (int d + 1) :: int64) = signed_take_bit 63 (int d + 1)"
    unfolding sint_sbintrunc' by simp
  moreover have "signed_take_bit 63 (int d + 1) = int d + 1"
    using assms by (intro signed_take_bit_int_eq_self) auto
  ultimately show ?thesis
    by (simp only:)
qed

lemma walkFn_dir: "IsDir n \<Longrightarrow> walkFn path (Some n) None files = Inr files"
  by (simp add: walkFn_def)

lemma parseMigrationFile_version:
  assumes "parseMigrationFile path n = Inr file"
  shows "MigrationFile.Version file \<noteq> [] \<and> list_all isDigit (MigrationFile.Version file)"
proof -
  from assms have "MigrationFile.Version file = takeWhile isDigit (Base path)"
    and "takeWhile isDigit (Base path) \<noteq> []"
    by (auto simp: parseMigrationFile_def FindStringSubmatch_def Let_def
        split: if_splits sum.splits prod.splits)
  moreover have "list_all isDigit (takeWhile isDigit (Base path))"
    by (simp add: list_all_iff) (meson set_takeWhileD)
  ultimately show ?thesis by simp
qed

lemma walkFn_versions:
  assumes "walkFn path d err files = Inr fs" and "digit_versions files"
  shows "digit_versions fs"
proof (cases "\<exists>file. fs = files @ [file] \<and> (\<exists>n. parseMigrationFile path n = Inr file)")
  case True
  with assms(2) parseMigrationFile_version show ?thesis
    by (auto simp: digit_versions_def)
next
  case False
  with assms(1) have "fs = files"
    by (auto simp: walkFn_def split: option.splits if_splits sum.splits)
  with assms(2) show ?thesis by simp
qed

lemma walk_versions:
  "walkDir path n files = Inr fs \<Longrightarrow> digit_versions files \<Longrightarrow> digit_versions fs"
  "walkEntries path entries files = Inr fs \<Longrightarrow> digit_versions files \<Longrightarrow> digit_versions fs"
proof (induction path n files and path entries files arbitrary: fs and fs
       rule: walkDir_walkEntries.induct)
  case (1 path entries files)
  then show ?case by (simp add: walkFn_dir)
next
  case (2 path en files)
  then show ?case by (simp add: walkFn_dir) (simp add: walkFn_def)
next
  case (3 path content files)
  then show ?case using walkFn_versions by simp
next
  case (4 path en files)
  then show ?case using walkFn_versions by simp
next
  case (5 path files)
  then show ?case by simp
next
  case (6 path name n entries files)
  from "6.prems"(1) obtain files' where
    a: "walkDir (JoinPath path name) n files = Inr files'" and b: "walkEntries path entries files' = Inr fs"
    by (auto split: sum.splits)
  from "6.IH"(1) [OF a "6.prems"(2)] "6.IH"(2) [OF a b] show ?case by blast
qed

text \<open>Every discovered version is a run of one or more digits.\<close>

lemma loadMigrationFiles_versions:
  assumes "loadMigrationFiles dir source = Inr files" "f \<in> set files"
  shows "MigrationFile.Version f \<noteq> []" and "list_all isDigit (MigrationFile.Version f)"
proof -
  from assms(1) obtain fs where w: "WalkDir dir source = Inr fs"
    and s: "files = sort_key MigrationFile.Version fs"
    by (auto simp: loadMigrationFiles_def split: sum.splits)
  have "digit_versions []" by (simp add: digit_versions_def)
  with w have "digit_versions fs"
    using walk_versions(1) [of dir _ "[]" fs]
    by (auto simp: WalkDir_def walkFn_def split: sum.splits)
  with s assms(2) show "MigrationFile.Version f \<noteq> []" and "list_all isDigit (MigrationFile.Version f)"
    by (auto simp: digit_versions_def)
qed

text \<open>
  Version allocation below the largest \<^verbatim>\<open>int\<close>: the next version is the last
  version plus one, padded to three digits.
\<close>

lemma getNextVersion_increments:
  assumes "loadMigrationFiles dir source = Inr files" "files \<noteq> []"
    and "decimal (MigrationFile.Version (last files)) < 2 ^ 63 - 1"
  shows "getNextVersion dir source =
           Inr (Sprintf_03d (int (decimal (MigrationFile.Version (last files))) + 1))"
proof -
  have l: "files ! (length files - 1) = last files"
    using assms(2) by (simp add: last_conv_nth)
  have "last files \<in> set files" using assms(2) by simp
  from loadMigrationFiles_versions [OF assms(1) this] assms(3)
  have "Atoi (MigrationFile.Version (last files)) =
          Inr (word_of_nat (decimal (MigrationFile.Version (last files))))"
    by (simp add: Atoi_digits)
  with assms l sint_next [OF assms(3)] show ?thesis
    by (simp add: getNextVersion_def)
qed

lemma getNextVersion_out_of_range:
  assumes "loadMigrationFiles dir source = Inr files" "files \<noteq> []"
    and "2 ^ 63 \<le> decimal (MigrationFile.Version (last files))"
  shows "getNextVersion dir source =
           Inl (New (''invalid version format: '' @ MigrationFile.Version (last files)))"
proof -
  have l: "files ! (length files - 1) = last files"
    using assms(2) by (simp add: last_conv_nth)
  have "last files \<in> set files" using assms(2) by simp
  from loadMigrationFiles_versions [OF assms(1) this] assms(3)
  have "Atoi (MigrationFile.Version (last files)) =
          Inl (New (''strconv.Atoi: parsing '' @ [CHR 0x22] @ MigrationFile.Version (last files) @
                    [CHR 0x22] @ '': value out of range''))"
    by (simp add: Atoi_digits)
  with assms l show ?thesis
    by (simp add: getNextVersion_def)
qed

lemma getNextVersion_default:
  "getNextVersion dir (Inl ENOENT) = Inr ''001''"
  "loadMigrationFiles dir source = Inr [] \<Longrightarrow> getNextVersion dir source = Inr ''001''"
  by (simp_all add: getNextVersion_def loadMigrationFiles_def WalkDir_def walkFn_def)

text \<open>The specification's example: after versions 001, 002 and 007 comes 008.\<close>

lemma getNextVersion_example:
  "getNextVersion ''migrations''
     (Inr (Dir [(''001_a.sql'', File []), (''007_c.sql'', File []), (''002_b.sql'', File [])])) =
   Inr ''008''"
  by (simp add: discovery_defs parse_defs version_defs digits.simps replicate_small)

lemma getNextVersion_past_999:
  "getNextVersion ''migrations'' (Inr (Dir [(''999_z.sql'', File [])])) = Inr ''1000''"
  by (simp add: discovery_defs parse_defs version_defs digits.simps replicate_small)

text \<open>
  C6 at the largest \<^verbatim>\<open>int\<close>. The last version \<^verbatim>\<open>9223372036854775807\<close> is a
  valid integer, so by the claim the next version is \<^verbatim>\<open>9223372036854775808\<close>.
  \<^verbatim>\<open>lastVersion + 1\<close> wraps around instead, and the code returns a negative
  number, which is no version of the filename grammar.
\<close>

theorem getNextVersion_wraps:
  "getNextVersion ''migrations'' (Inr (Dir [(''9223372036854775807_big.sql'', File [])])) =
     Inr ''-9223372036854775808''"
  by (simp add: discovery_defs parse_defs version_defs digits.simps replicate_small)

subsection \<open>The store\<close>

lemma ExecuteSQL_effect:
  assumes "ExecuteSQL drv sql w = (r, w')"
  shows "sent w' = sent w @ [Body sql]" and "stdout w' = stdout w"
    and "r \<noteq> None \<Longrightarrow> schema_migrations w' = schema_migrations w \<and> tables w' = tables w"
    and "keeps_ledger drv \<Longrightarrow> schema_migrations w' = schema_migrations w"
proof -
  from assms show "sent w' = sent w @ [Body sql]" and "stdout w' = stdout w"
    and "r \<noteq> None \<Longrightarrow> schema_migrations w' = schema_migrations w \<and> tables w' = tables w"
    by (auto simp: ExecuteSQL_def send_def Let_def split: option.splits sum.splits prod.splits)
  assume k: "keeps_ledger drv"
  have "ledger = schema_migrations w"
    if "run drv sql (schema_migrations w, tables w) = Inr (ledger, data)" for ledger data
    using k that unfolding keeps_ledger_def by blast
  with assms show "schema_migrations w' = schema_migrations w"
    by (auto simp: ExecuteSQL_def send_def Let_def split: option.splits sum.splits prod.splits)
qed

lemma RecordMigration_effect:
  assumes "RecordMigration drv version name w = (r, w')"
  shows "sent w' = sent w @ [INSERT version name]" and "stdout w' = stdout w"
    and "tables w' = tables w"
    and "r \<noteq> None \<Longrightarrow> schema_migrations w' = schema_migrations w"
    and "r = None \<Longrightarrow> ledger_entries w' = ledger_entries w @ [(version, name)]"
    and "r = None \<Longrightarrow> version \<notin> ledger_versions w"
  using assms
  by (auto simp: RecordMigration_def send_def ledger_entries_def ledger_versions_def Let_def
      split: option.splits if_splits)

lemma RemoveMigration_effect:
  assumes "RemoveMigration drv version w = (r, w')"
  shows "sent w' = sent w @ [DELETE version]" and "stdout w' = stdout w"
    and "tables w' = tables w"
    and "r \<noteq> None \<Longrightarrow> schema_migrations w' = schema_migrations w"
    and "r = None \<Longrightarrow> schema_migrations w' =
           filter (\<lambda>m. Migration.Version m \<noteq> version) (schema_migrations w)"
  using assms
  by (auto simp: RemoveMigration_def send_def Let_def split: option.splits)

lemma GetAppliedMigrations_effect:
  assumes "GetAppliedMigrations drv w = (r, w')"
  shows "w' = w\<lparr>sent := sent w @ [SELECT]\<rparr>"
    and "fault drv (sent w @ [SELECT]) = None \<Longrightarrow>
           r = Inr (sort_key Migration.Version (schema_migrations w))"
    and "r = Inr applied \<Longrightarrow> applied = sort_key Migration.Version (schema_migrations w)"
  using assms
  by (auto simp: GetAppliedMigrations_def send_def Let_def split: option.splits)

text \<open>The store maintains the primary key of the ledger.\<close>

lemma RecordMigration_distinct:
  assumes "RecordMigration drv version name w = (r, w')"
    and "distinct (map Migration.Version (schema_migrations w))"
  shows "distinct (map Migration.Version (schema_migrations w'))"
  using assms
  by (auto simp: RecordMigration_def send_def Let_def split: option.splits if_splits)

lemma keeps_ledger_example: "keeps_ledger example_db"
  by (simp add: keeps_ledger_def example_db_def split: if_splits)

subsection \<open>The loop of \<^verbatim>\<open>Up\<close>\<close>

lemma Println_effect:
  "sent (Println line w) = sent w" "stdout (Println line w) = stdout w @ [line]"
  "schema_migrations (Println line w) = schema_migrations w" "tables (Println line w) = tables w"
  "ledger_entries (Println line w) = ledger_entries w"
  "ledger_versions (Println line w) = ledger_versions w"
  by (simp_all add: Println_def ledger_entries_def ledger_versions_def)

lemma ledger_entries_cong:
  "schema_migrations w' = schema_migrations w \<Longrightarrow> ledger_entries w' = ledger_entries w"
  by (simp add: ledger_entries_def)

lemma pending_Cons:
  "pending A (file # files) =
     (if MigrationFile.Version file \<in> A then pending A files else file # pending A files)"
  by (simp add: pending_def)

lemma Up_loop_skip:
  "MigrationFile.Version file \<in> A \<Longrightarrow>
     Up_loop drv A (file # files) c w = Up_loop drv A files c w"
  by simp

text \<open>One turn of the loop on a pending file, by its three outcomes.\<close>

lemma Up_loop_turn:
  assumes "MigrationFile.Version file \<notin> A" and "Up_loop drv A (file # files) c w = (r, w')"
  obtains
    (exec_failed) err where
      "ExecuteSQL drv (UpSQL file) (Println (applying_line file) w) = (Some err, w')"
      "r = Inl (Errorf (''failed to execute migration '' @ MigrationFile.Version file @ '': '') err)"
  | (record_failed) err w2 where
      "ExecuteSQL drv (UpSQL file) (Println (applying_line file) w) = (None, w2)"
      "RecordMigration drv (MigrationFile.Version file) (MigrationFile.Name file) w2 = (Some err, w')"
      "r = Inl (Errorf (''failed to record migration '' @ MigrationFile.Version file @ '': '') err)"
  | (applied) w2 w3 where
      "ExecuteSQL drv (UpSQL file) (Println (applying_line file) w) = (None, w2)"
      "RecordMigration drv (MigrationFile.Version file) (MigrationFile.Name file) w2 = (None, w3)"
      "Up_loop drv A files (c + 1) w3 = (r, w')"
  using assms
  by (auto simp: applying_line_def Let_def split: prod.splits option.splits)

text \<open>What one applied file leaves behind.\<close>

lemma applied_effect:
  assumes "ExecuteSQL drv (UpSQL file) (Println (applying_line file) w) = (None, w2)"
    and "RecordMigration drv (MigrationFile.Version file) (MigrationFile.Name file) w2 = (None, w3)"
  shows "sent w3 = sent w @ apply_statements file"
    and "stdout w3 = stdout w @ [applying_line file]"
    and "keeps_ledger drv \<Longrightarrow> ledger_entries w3 = ledger_entries w @ [entry file]"
proof -
  note e = ExecuteSQL_effect [OF assms(1)] and r = RecordMigration_effect [OF assms(2)]
  show "sent w3 = sent w @ apply_statements file"
    by (simp add: e(1) r(1) Println_effect apply_statements_def)
  show "stdout w3 = stdout w @ [applying_line file]"
    by (simp add: e(2) r(2) Println_effect)
  assume "keeps_ledger drv"
  then have "ledger_entries w2 = ledger_entries w"
    using e(4) by (simp add: ledger_entries_def Println_effect)
  then show "ledger_entries w3 = ledger_entries w @ [entry file]"
    using r(5) by (simp add: entry_def)
qed

lemma Up_loop_success:
  assumes "Up_loop drv A files c w = (Inr n, w')"
  shows "n = c + length (pending A files)"
    and "sent w' = sent w @ concat (map apply_statements (pending A files))"
    and "stdout w' = stdout w @ map applying_line (pending A files)"
    and "keeps_ledger drv \<Longrightarrow> ledger_entries w' = ledger_entries w @ map entry (pending A files)"
  using assms
proof (induction files arbitrary: c w)
  case Nil
  {
    case 1 then show ?case by (simp add: pending_def)
  next
    case 2 then show ?case by (simp add: pending_def)
  next
    case 3 then show ?case by (simp add: pending_def)
  next
    case 4 then show ?case by (simp add: pending_def)
  }
next
  case (Cons mf files)
  {
    case 1
    show ?case
    proof (cases "MigrationFile.Version mf \<in> A")
      case True
      with Cons.IH(1) [of c w] 1 show ?thesis by (simp add: pending_Cons)
    next
      case False
      from False 1 show ?thesis
      proof (cases rule: Up_loop_turn)
        case (applied w2 w3)
        with Cons.IH(1) [OF applied(3)] False show ?thesis by (simp add: pending_Cons)
      qed simp_all
    qed
  next
    case 2
    show ?case
    proof (cases "MigrationFile.Version mf \<in> A")
      case True
      with Cons.IH(2) [of c w] 2 show ?thesis by (simp add: pending_Cons)
    next
      case False
      from False 2 show ?thesis
      proof (cases rule: Up_loop_turn)
        case (applied w2 w3)
        with Cons.IH(2) [OF applied(3)] applied_effect(1) [OF applied(1,2)] False
        show ?thesis by (simp add: pending_Cons)
      qed simp_all
    qed
  next
    case 3
    show ?case
    proof (cases "MigrationFile.Version mf \<in> A")
      case True
      with Cons.IH(3) [of c w] 3 show ?thesis by (simp add: pending_Cons)
    next
      case False
      from False 3 show ?thesis
      proof (cases rule: Up_loop_turn)
        case (applied w2 w3)
        with Cons.IH(3) [OF applied(3)] applied_effect(2) [OF applied(1,2)] False
        show ?thesis by (simp add: pending_Cons)
      qed simp_all
    qed
  next
    case 4
    show ?case
    proof (cases "MigrationFile.Version mf \<in> A")
      case True
      with Cons.IH(4) [of c w] 4 show ?thesis by (simp add: pending_Cons)
    next
      case False
      from False 4(2) show ?thesis
      proof (cases rule: Up_loop_turn)
        case (applied w2 w3)
        with Cons.IH(4) [OF 4(1) applied(3)] applied_effect(3) [OF applied(1,2) 4(1)] False
        show ?thesis by (simp add: pending_Cons)
      qed simp_all
    qed
  }
qed




lemma Up_loop_no_pending:
  "pending A files = [] \<Longrightarrow> Up_loop drv A files c w = (Inr c, w)"
  by (induction files) (auto simp: pending_Cons split: if_splits)

lemma sorted_pending:
  "sorted (map MigrationFile.Version files) \<Longrightarrow> sorted (map MigrationFile.Version (pending A files))"
  unfolding pending_def by (induction files) auto

lemma set_sort_key_versions:
  "set (map Migration.Version (sort_key Migration.Version ms)) = set (map Migration.Version ms)"
  by simp

subsection \<open>\<^verbatim>\<open>Up\<close>\<close>

lemmas engine_defs =
  Up_def Down_def GetAppliedMigrations_def ExecuteSQL_def RecordMigration_def
  RemoveMigration_def send_def Println_def example_db_def empty_world_def


text \<open>\<^verbatim>\<open>Up\<close> after a discovery that found files: the ledger is read, then the loop runs.\<close>

lemma Up_unfold:
  assumes "loadMigrationFiles dir source = Inr files" "files \<noteq> []"
  shows "Up drv dir source w =
     (case fault drv (sent w @ [SELECT]) of
        Some e \<Rightarrow> (Some (Errorf ''failed to get applied migrations: '' e), send SELECT w)
      | None \<Rightarrow>
          (case Up_loop drv (ledger_versions w) files 0 (send SELECT w) of
             (Inl err, w2) \<Rightarrow> (Some err, w2)
           | (Inr n, w2) \<Rightarrow>
               (None, Println (if n = 0 then ''No pending migrations''
                               else ''Applied '' @ digits n @ '' migration(s)'') w2)))"
  using assms
  by (simp add: Up_def GetAppliedMigrations_def Let_def ledger_versions_def send_def
      split: option.splits prod.splits sum.splits)

lemma send_effect:
  "sent (send st w) = sent w @ [st]" "stdout (send st w) = stdout w"
  "ledger_entries (send st w) = ledger_entries w" "ledger_versions (send st w) = ledger_versions w"
  "schema_migrations (send st w) = schema_migrations w" "tables (send st w) = tables w"
  by (simp_all add: send_def ledger_entries_def ledger_versions_def)

text \<open>What a successful \<^verbatim>\<open>Up\<close> sent, printed and recorded.\<close>

lemma Up_success_effect:
  assumes "loadMigrationFiles migrationsDir source = Inr files"
    and "Up drv migrationsDir source w = (None, w')"
  shows "sent w' = sent w @
           (if files = [] then []
            else SELECT # concat (map apply_statements (pending (ledger_versions w) files))) \<and>
         sorted (map MigrationFile.Version (pending (ledger_versions w) files)) \<and>
         stdout w' = stdout w @
           (if files = [] then [''No migrations found'']
            else map applying_line (pending (ledger_versions w) files) @
              [if pending (ledger_versions w) files = [] then ''No pending migrations''
               else ''Applied '' @ digits (length (pending (ledger_versions w) files)) @
                    '' migration(s)'']) \<and>
         (keeps_ledger drv \<longrightarrow>
            ledger_entries w' = ledger_entries w @ map entry (pending (ledger_versions w) files))"
proof (cases "files = []")
  case True
  with assms have "w' = Println ''No migrations found'' w"
    by (simp add: Up_def)
  with True show ?thesis
    by (simp add: Println_effect pending_def)
next
  case False
  let ?P = "pending (ledger_versions w) files"
  from assms(2) Up_unfold [OF assms(1) False, of drv w] obtain n w2 where
    l: "Up_loop drv (ledger_versions w) files 0 (send SELECT w) = (Inr n, w2)"
    and w': "w' = Println (if n = 0 then ''No pending migrations''
                           else ''Applied '' @ digits n @ '' migration(s)'') w2"
    by (auto split: option.splits prod.splits sum.splits)
  note s = Up_loop_success [OF l]
  have "sent w' = sent w @ SELECT # concat (map apply_statements ?P)"
    by (simp add: w' Println_effect s(2) send_effect)
  moreover have "sorted (map MigrationFile.Version ?P)"
    using sorted_loadMigrationFiles [OF assms(1)] by (rule sorted_pending)
  moreover have "stdout w' = stdout w @ map applying_line ?P @
      [if ?P = [] then ''No pending migrations''
       else ''Applied '' @ digits (length ?P) @ '' migration(s)'']"
    by (simp add: w' Println_effect s(1,3) send_effect)
  moreover have "keeps_ledger drv \<longrightarrow> ledger_entries w' = ledger_entries w @ map entry ?P"
    using s(4) by (simp add: w' Println_effect send_effect)
  ultimately show ?thesis using False by simp
qed

text \<open>
  C1. When \<^verbatim>\<open>Up\<close> succeeds over the discovered definitions \<open>files\<close>, the
  statements it sent are the read of the ledger and then, for exactly the
  definitions whose version is not in the applied set and in their ascending
  version order, the forward body followed at once by the ledger entry. It
  printed one line for each of them and then their number (or that none was
  pending; with no definitions at all, that none was found and nothing was
  sent). When no body writes to the ledger, the ledger has grown by exactly
  their entries.
\<close>

theorem Up_applies_pending:
  assumes "loadMigrationFiles migrationsDir source = Inr files"
    and "Up drv migrationsDir source w = (None, w')"
  shows "sent w' = sent w @
           (if files = [] then []
            else SELECT # concat (map apply_statements (pending (ledger_versions w) files))) \<and>
         sorted (map MigrationFile.Version (pending (ledger_versions w) files)) \<and>
         stdout w' = stdout w @
           (if files = [] then [''No migrations found'']
            else map applying_line (pending (ledger_versions w) files) @
              [if pending (ledger_versions w) files = [] then ''No pending migrations''
               else ''Applied '' @ digits (length (pending (ledger_versions w) files)) @
                    '' migration(s)'']) \<and>
         (keeps_ledger drv \<longrightarrow>
            ledger_entries w' = ledger_entries w @ map entry (pending (ledger_versions w) files))"
  using assms by (rule Up_success_effect)

lemma Up_example:
  "Up example_db ''migrations'' example_source empty_world =
     (None,
      \<lparr>schema_migrations =
         [\<lparr>Migration.Version = ''001'', Name = ''create_users'', AppliedAt = 3\<rparr>,
          \<lparr>Migration.Version = ''002'', Name = ''create_posts'', AppliedAt = 5\<rparr>],
       tables = [''CREATE TABLE users (id TEXT);'', ''CREATE TABLE posts (id TEXT);''],
       sent = [SELECT, Body ''CREATE TABLE users (id TEXT);'', INSERT ''001'' ''create_users'',
               Body ''CREATE TABLE posts (id TEXT);'', INSERT ''002'' ''create_posts''],
       stdout = [''Applying migration 001: create_users'', ''Applying migration 002: create_posts'',
                 ''Applied 2 migration(s)'']\<rparr>)"
  by (simp add: engine_defs loadMigrationFiles_example digits.simps)

theorem Up_applies_pending_witness:
  "loadMigrationFiles ''migrations'' example_source =
     Inr [\<lparr>MigrationFile.Version = ''001'', Name = ''create_users'',
           Path = ''migrations/nested/001_create_users.sql'',
           UpSQL = ''CREATE TABLE users (id TEXT);'', DownSQL = ''DROP TABLE users;''\<rparr>,
          \<lparr>MigrationFile.Version = ''002'', Name = ''create_posts'',
           Path = ''migrations/002_create_posts.sql'',
           UpSQL = ''CREATE TABLE posts (id TEXT);'', DownSQL = ''DROP TABLE posts;''\<rparr>] \<and>
   fst (Up example_db ''migrations'' example_source empty_world) = None \<and>
   sent (snd (Up example_db ''migrations'' example_source empty_world)) =
     [SELECT, Body ''CREATE TABLE users (id TEXT);'', INSERT ''001'' ''create_users'',
      Body ''CREATE TABLE posts (id TEXT);'', INSERT ''002'' ''create_posts''] \<and>
   last (stdout (snd (Up example_db ''migrations'' example_source empty_world))) =
     ''Applied 2 migration(s)'' \<and>
   ledger_entries (snd (Up example_db ''migrations'' example_source empty_world)) =
     [(''001'', ''create_users''), (''002'', ''create_posts'')]"
proof -
  obtain w' where u: "Up example_db ''migrations'' example_source empty_world = (None, w')"
    by (simp add: Up_example)
  have p: "pending (ledger_versions empty_world)
             [\<lparr>MigrationFile.Version = ''001'', Name = ''create_users'',
               Path = ''migrations/nested/001_create_users.sql'',
               UpSQL = ''CREATE TABLE users (id TEXT);'', DownSQL = ''DROP TABLE users;''\<rparr>,
              \<lparr>MigrationFile.Version = ''002'', Name = ''create_posts'',
               Path = ''migrations/002_create_posts.sql'',
               UpSQL = ''CREATE TABLE posts (id TEXT);'', DownSQL = ''DROP TABLE posts;''\<rparr>] =
           [\<lparr>MigrationFile.Version = ''001'', Name = ''create_users'',
               Path = ''migrations/nested/001_create_users.sql'',
               UpSQL = ''CREATE TABLE users (id TEXT);'', DownSQL = ''DROP TABLE users;''\<rparr>,
              \<lparr>MigrationFile.Version = ''002'', Name = ''create_posts'',
               Path = ''migrations/002_create_posts.sql'',
               UpSQL = ''CREATE TABLE posts (id TEXT);'', DownSQL = ''DROP TABLE posts;''\<rparr>]"
    by (simp add: pending_def ledger_versions_def empty_world_def)
  from Up_applies_pending [OF loadMigrationFiles_example u] keeps_ledger_example
  have "sent w' = sent empty_world @
          [SELECT, Body ''CREATE TABLE users (id TEXT);'', INSERT ''001'' ''create_users'',
           Body ''CREATE TABLE posts (id TEXT);'', INSERT ''002'' ''create_posts'']"
    and "last (stdout w') = ''Applied 2 migration(s)''"
    and "ledger_entries w' = ledger_entries empty_world @
          [(''001'', ''create_users''), (''002'', ''create_posts'')]"
    unfolding p
    by (simp_all add: apply_statements_def entry_def digits.simps)
  then show ?thesis
    using u loadMigrationFiles_example
    by (simp add: empty_world_def ledger_entries_def)
qed


text \<open>
  A ledger write that fails: the second definition of version 001 has its
  body executed, and its ledger entry is refused by the primary key.
\<close>

lemma loadMigrationFiles_duplicate:
  "loadMigrationFiles ''migrations'' duplicate_source =
     Inr [\<lparr>MigrationFile.Version = ''001'', Name = ''a'', Path = ''migrations/001_a.sql'',
           UpSQL = ''CREATE TABLE a (id TEXT);'', DownSQL = []\<rparr>,
          \<lparr>MigrationFile.Version = ''001'', Name = ''b'', Path = ''migrations/more/001_b.sql'',
           UpSQL = ''CREATE TABLE b (id TEXT);'', DownSQL = []\<rparr>]"
  by (simp add: duplicate_source_def discovery_defs parse_defs)

lemma Up_duplicate_example:
  "Up example_db ''migrations'' duplicate_source empty_world =
     (Some (Errorf ''failed to record migration 001: ''
              (DriverError ''UNIQUE constraint failed: schema_migrations.version'')),
      \<lparr>schema_migrations = [\<lparr>Migration.Version = ''001'', Name = ''a'', AppliedAt = 3\<rparr>],
       tables = [''CREATE TABLE a (id TEXT);'', ''CREATE TABLE b (id TEXT);''],
       sent = [SELECT, Body ''CREATE TABLE a (id TEXT);'', INSERT ''001'' ''a'',
               Body ''CREATE TABLE b (id TEXT);'', INSERT ''001'' ''b''],
       stdout = [''Applying migration 001: a'', ''Applying migration 001: b'']\<rparr>)"
  by (simp add: engine_defs loadMigrationFiles_duplicate)



lemma ledger_versions_entries: "ledger_versions w = fst ` set (ledger_entries w)"
  by (auto simp: ledger_versions_def ledger_entries_def image_iff)

lemma ledger_versions_cong:
  "schema_migrations w' = schema_migrations w \<Longrightarrow> ledger_versions w' = ledger_versions w"
  by (simp add: ledger_versions_def)

lemma pending_all_applied:
  "MigrationFile.Version ` set files \<subseteq> A \<Longrightarrow> pending A files = []"
  by (auto simp: pending_def filter_empty_conv)

text \<open>After a successful \<^verbatim>\<open>Up\<close> every discovered version is in the ledger.\<close>

lemma Up_success_covers:
  assumes "keeps_ledger drv" "loadMigrationFiles dir source = Inr files"
    and "Up drv dir source w = (None, w1)"
  shows "MigrationFile.Version ` set files \<subseteq> ledger_versions w1"
proof
  fix v assume "v \<in> MigrationFile.Version ` set files"
  then obtain mf where mf: "mf \<in> set files" "v = MigrationFile.Version mf" by blast
  from Up_success_effect [OF assms(2,3)] assms(1)
  have l: "ledger_entries w1 =
             ledger_entries w @ map entry (pending (ledger_versions w) files)"
    by simp
  show "v \<in> ledger_versions w1"
  proof (cases "v \<in> ledger_versions w")
    case True
    then show ?thesis
      unfolding ledger_versions_entries l by auto
  next
    case False
    with mf have "mf \<in> set (pending (ledger_versions w) files)"
      by (simp add: pending_def)
    then have "(v, MigrationFile.Name mf) \<in> set (ledger_entries w1)"
      unfolding l using mf(2) by (auto simp: entry_def image_iff)
    then show ?thesis
      unfolding ledger_versions_entries by force
  qed
qed

text \<open>
  C9. After a run of \<^verbatim>\<open>Up\<close> that succeeded, a second run over the same
  source sends at most the read of the ledger: no forward body and no ledger
  entry. The ledger and the tables stay as they are, and when the read
  succeeds the run succeeds and reports that nothing was pending (or that no
  definitions were found). Migration bodies are assumed not to write to the
  ledger table.
\<close>

theorem Up_twice_applies_nothing:
  assumes "keeps_ledger drv"
    and "Up drv migrationsDir source w = (None, w1)"
    and "Up drv migrationsDir source w1 = (r, w2)"
  shows "(sent w2 = sent w1 \<or> sent w2 = sent w1 @ [SELECT]) \<and>
         schema_migrations w2 = schema_migrations w1 \<and> tables w2 = tables w1 \<and>
         (fault drv (sent w1 @ [SELECT]) = None \<longrightarrow>
            r = None \<and>
            (stdout w2 = stdout w1 @ [''No pending migrations''] \<or>
             stdout w2 = stdout w1 @ [''No migrations found'']))"
proof -
  from assms(2) obtain files where load: "loadMigrationFiles migrationsDir source = Inr files"
    by (cases "loadMigrationFiles migrationsDir source") (auto simp: Up_def)
  show ?thesis
  proof (cases "files = []")
    case True
    with load assms(3) have "r = None" "w2 = Println ''No migrations found'' w1"
      by (auto simp: Up_def)
    then show ?thesis by (simp add: Println_effect)
  next
    case False
    from Up_success_covers [OF assms(1) load assms(2)]
    have p: "pending (ledger_versions w1) files = []"
      by (rule pending_all_applied)
    show ?thesis
    proof (cases "fault drv (sent w1 @ [SELECT])")
      case (Some e)
      with assms(3) Up_unfold [OF load False, of drv w1]
      have "w2 = send SELECT w1" by simp
      with Some show ?thesis by (simp add: send_effect)
    next
      case None
      with assms(3) Up_unfold [OF load False, of drv w1] Up_loop_no_pending [OF p, of drv 0 "send SELECT w1"]
      have "r = None" "w2 = Println ''No pending migrations'' (send SELECT w1)"
        by simp_all
      then show ?thesis by (simp add: Println_effect send_effect)
    qed
  qed
qed

theorem Up_twice_applies_nothing_witness:
  "keeps_ledger example_db \<and>
   fst (Up example_db ''migrations'' example_source empty_world) = None \<and>
   fst (Up example_db ''migrations'' example_source
          (snd (Up example_db ''migrations'' example_source empty_world))) = None \<and>
   sent (snd (Up example_db ''migrations'' example_source
          (snd (Up example_db ''migrations'' example_source empty_world)))) =
     sent (snd (Up example_db ''migrations'' example_source empty_world)) @ [SELECT] \<and>
   schema_migrations (snd (Up example_db ''migrations'' example_source
          (snd (Up example_db ''migrations'' example_source empty_world)))) =
     schema_migrations (snd (Up example_db ''migrations'' example_source empty_world))"
proof -
  obtain w1 where u1: "Up example_db ''migrations'' example_source empty_world = (None, w1)"
    by (simp add: Up_example)
  obtain r w2 where u2: "Up example_db ''migrations'' example_source w1 = (r, w2)"
    by (cases "Up example_db ''migrations'' example_source w1") blast
  have f: "fault example_db (sent w1 @ [SELECT]) = None"
    by (simp add: example_db_def)
  have ne: "sent w2 \<noteq> sent w1"
    using u1 u2 by (auto simp: Up_example engine_defs loadMigrationFiles_example)
  from Up_twice_applies_nothing [OF keeps_ledger_example u1 u2] f ne
  have "r = None" "sent w2 = sent w1 @ [SELECT]" "schema_migrations w2 = schema_migrations w1"
    by auto
  with u1 u2 keeps_ledger_example show ?thesis by simp
qed


text \<open>A content without marker lines has an empty forward and an empty backward body.\<close>

lemma parseSQL_loop_no_marker:
  "list_all (\<lambda>l. \<not> is_marker l) ls \<Longrightarrow> parseSQL_loop ls [] upLines downLines = (upLines, downLines)"
  by (induction ls) (simp_all add: Contains_TrimSpace_tokens is_marker_def)

lemma strip_runes_Nil: "strip_runes ws [] = []"
  by simp

lemma TrimSpace_Nil: "TrimSpace [] = []"
  by (simp add: TrimSpace_def TrimLeftSpace_def TrimRightSpace_def)

lemma parseSQL_no_marker:
  "list_all (\<lambda>l. \<not> is_marker l) (Scan content) \<Longrightarrow> parseSQL content = ([], [])"
  by (simp add: parseSQL_def parseSQL_loop_no_marker TrimSpace_Nil)




subsection \<open>\<^verbatim>\<open>Down\<close>\<close>

text \<open>The last row of the ordered ledger has the greatest version.\<close>

lemma sorted_le_last: "sorted xs \<Longrightarrow> x \<in> set xs \<Longrightarrow> x \<le> last (xs :: string list)"
  by (induction xs) auto

lemma last_sorted_ledger:
  assumes "ms \<noteq> []"
  shows "last (sort_key Migration.Version ms) \<in> set ms"
    and "m \<in> set ms \<Longrightarrow>
           Migration.Version m \<le> Migration.Version (last (sort_key Migration.Version ms))"
proof -
  let ?s = "sort_key Migration.Version ms"
  from assms have ne: "?s \<noteq> []" by (metis length_sort list.size(3) length_0_conv)
  then have "last ?s \<in> set ?s" by (rule last_in_set)
  then show "last ?s \<in> set ms" by simp
  assume "m \<in> set ms"
  then have "Migration.Version m \<in> set (map Migration.Version ?s)" by simp
  moreover have "sorted (map Migration.Version ?s)" by simp
  ultimately have "Migration.Version m \<le> last (map Migration.Version ?s)"
    by (rule sorted_le_last [rotated])
  then show "Migration.Version m \<le> Migration.Version (last ?s)"
    using ne by (simp add: last_map)
qed

lemma greatest_version_last:
  assumes "m \<in> set ms" and "\<forall>m' \<in> set ms. Migration.Version m' \<le> Migration.Version m"
  shows "Migration.Version (last (sort_key Migration.Version ms)) = Migration.Version m"
proof -
  from assms(1) have ne: "ms \<noteq> []" by auto
  from last_sorted_ledger(1) [OF ne] assms(2)
  have "Migration.Version (last (sort_key Migration.Version ms)) \<le> Migration.Version m" by blast
  with last_sorted_ledger(2) [OF ne assms(1)] show ?thesis by simp
qed

lemma filter_version_remove1:
  assumes "distinct (map Migration.Version ms)" "m \<in> set ms"
  shows "filter (\<lambda>x. Migration.Version x \<noteq> Migration.Version m) ms = remove1 m ms"
  using assms
proof (induction ms)
  case Nil
  then show ?case by simp
next
  case (Cons a ms)
  show ?case
  proof (cases "a = m")
    case True
    with Cons.prems have "\<forall>x \<in> set ms. Migration.Version x \<noteq> Migration.Version m"
      by (auto simp: image_iff)
    then have "filter (\<lambda>x. Migration.Version x \<noteq> Migration.Version m) ms = ms"
      by (simp add: filter_id_conv)
    with True show ?thesis by simp
  next
    case False
    with Cons.prems have "m \<in> set ms" "Migration.Version a \<noteq> Migration.Version m"
      by (auto simp: image_iff)
    with Cons False show ?thesis by simp
  qed
qed

text \<open>\<^verbatim>\<open>Down\<close> once the ledger was read and found not empty.\<close>

lemma Down_unfold:
  assumes "fault drv (sent w @ [SELECT]) = None" "schema_migrations w \<noteq> []"
  shows "Down drv dir source w =
     (let lastMigration = last (sort_key Migration.Version (schema_migrations w));
          w1 = send SELECT w in
      case loadMigrationFiles dir source of
        Inl err \<Rightarrow> (Some (Errorf ''failed to load migration files: '' err), w1)
      | Inr files \<Rightarrow>
          (case find (\<lambda>file. MigrationFile.Version file = Migration.Version lastMigration) files of
             None \<Rightarrow>
               (Some (New (''migration file not found for version '' @
                           Migration.Version lastMigration)), w1)
           | Some migrationFile \<Rightarrow>
               if DownSQL migrationFile = [] then
                 (Some (New (''no DOWN migration found for version '' @
                             Migration.Version lastMigration)), w1)
               else
                 let w2 = Println (rollback_line migrationFile) w1 in
                 case ExecuteSQL drv (DownSQL migrationFile) w2 of
                   (Some err, w3) \<Rightarrow>
                     (Some (Errorf (''failed to execute rollback for '' @
                               MigrationFile.Version migrationFile @ '': '') err), w3)
                 | (None, w3) \<Rightarrow>
                     (case RemoveMigration drv (MigrationFile.Version migrationFile) w3 of
                        (Some err, w4) \<Rightarrow>
                          (Some (Errorf (''failed to remove migration record '' @
                                    MigrationFile.Version migrationFile @ '': '') err), w4)
                      | (None, w4) \<Rightarrow>
                          (None, Println ''Migration rolled back successfully'' w4))))"
proof -
  have ne: "sort_key Migration.Version (schema_migrations w) \<noteq> []"
    using assms(2) by (metis length_sort list.size(3) length_0_conv)
  then have l: "sort_key Migration.Version (schema_migrations w) !
                  (length (schema_migrations w) - 1) =
                last (sort_key Migration.Version (schema_migrations w))"
    by (simp add: last_conv_nth)
  show ?thesis
    unfolding rollback_line_def using assms ne l
    by (simp add: Down_def GetAppliedMigrations_def send_def Let_def)
qed

lemma Down_read_failure:
  assumes "fault drv (sent w @ [SELECT]) = Some e"
  shows "Down drv dir source w = (Some (Errorf ''failed to get applied migrations: '' e), send SELECT w)"
  using assms by (simp add: Down_def GetAppliedMigrations_def send_def Let_def)

lemma Down_empty:
  assumes "fault drv (sent w @ [SELECT]) = None" "schema_migrations w = []"
  shows "Down drv dir source w = (None, Println ''No migrations to rollback'' (send SELECT w))"
  using assms by (simp add: Down_def GetAppliedMigrations_def send_def Let_def)

text \<open>
  C4. The ledger was read and is not empty, \<open>m\<close> is its entry of greatest
  version, and discovery returned \<open>files\<close>. When no file has the version of
  \<open>m\<close>, or the first file that has it has an empty backward body, \<^verbatim>\<open>Down\<close>
  fails with an error that names the version (file not found, or no DOWN
  migration), and all it did was read the ledger: no body was sent, and the
  ledger, the tables and the output are as before.
\<close>

theorem Down_refuses_without_backward_body:
  assumes "fault drv (sent w @ [SELECT]) = None"
    and "m \<in> set (schema_migrations w)"
    and "\<forall>m' \<in> set (schema_migrations w). Migration.Version m' \<le> Migration.Version m"
    and "loadMigrationFiles migrationsDir source = Inr files"
    and "find (\<lambda>file. MigrationFile.Version file = Migration.Version m) files = None \<or>
         (\<exists>mf. find (\<lambda>file. MigrationFile.Version file = Migration.Version m) files = Some mf \<and>
               DownSQL mf = [])"
  shows "Down drv migrationsDir source w =
           (Some (New ((if find (\<lambda>file. MigrationFile.Version file = Migration.Version m) files = None
                        then ''migration file not found for version ''
                        else ''no DOWN migration found for version '') @ Migration.Version m)),
            w\<lparr>sent := sent w @ [SELECT]\<rparr>)"
proof -
  from assms(2) have ne: "schema_migrations w \<noteq> []" by auto
  note v = greatest_version_last [OF assms(2,3)]
  from assms(5) show ?thesis
    unfolding Down_unfold [OF assms(1) ne] Let_def v assms(4)
    by (auto simp: send_def)
qed

lemma loadMigrationFiles_one_way:
  "loadMigrationFiles ''migrations'' one_way_source =
     Inr [\<lparr>MigrationFile.Version = ''001'', Name = ''create_users'',
           Path = ''migrations/001_create_users.sql'',
           UpSQL = ''CREATE TABLE users (id TEXT);'', DownSQL = ''DROP TABLE users;''\<rparr>,
          \<lparr>MigrationFile.Version = ''002'', Name = ''create_posts'',
           Path = ''migrations/002_create_posts.sql'',
           UpSQL = ''CREATE TABLE posts (id TEXT);'', DownSQL = []\<rparr>]"
  by (simp add: one_way_source_def discovery_defs parse_defs)

theorem Down_refuses_without_backward_body_witness:
  "fault example_db (sent out_of_order_world @ [SELECT]) = None \<and>
   \<lparr>Migration.Version = ''002'', Name = ''create_posts'', AppliedAt = 10\<rparr>
     \<in> set (schema_migrations out_of_order_world) \<and>
   list_all (\<lambda>m'. Migration.Version m' \<le> ''002'') (schema_migrations out_of_order_world) \<and>
   Down example_db ''migrations'' one_way_source out_of_order_world =
     (Some (New ''no DOWN migration found for version 002''),
      out_of_order_world\<lparr>sent := [SELECT]\<rparr>)"
proof -
  let ?m = "\<lparr>Migration.Version = ''002'', Name = ''create_posts'', AppliedAt = 10\<rparr>"
  have h1: "fault example_db (sent out_of_order_world @ [SELECT]) = None"
    by (simp add: example_db_def)
  have h2: "?m \<in> set (schema_migrations out_of_order_world)"
    by (simp add: out_of_order_world_def)
  have h3: "\<forall>m' \<in> set (schema_migrations out_of_order_world).
              Migration.Version m' \<le> Migration.Version ?m"
    by (simp add: out_of_order_world_def)
  have h5: "find (\<lambda>file. MigrationFile.Version file = Migration.Version ?m)
              [\<lparr>MigrationFile.Version = ''001'', Name = ''create_users'',
                Path = ''migrations/001_create_users.sql'',
                UpSQL = ''CREATE TABLE users (id TEXT);'', DownSQL = ''DROP TABLE users;''\<rparr>,
               \<lparr>MigrationFile.Version = ''002'', Name = ''create_posts'',
                Path = ''migrations/002_create_posts.sql'',
                UpSQL = ''CREATE TABLE posts (id TEXT);'', DownSQL = []\<rparr>] = None \<or>
            (\<exists>mf. find (\<lambda>file. MigrationFile.Version file = Migration.Version ?m)
              [\<lparr>MigrationFile.Version = ''001'', Name = ''create_users'',
                Path = ''migrations/001_create_users.sql'',
                UpSQL = ''CREATE TABLE users (id TEXT);'', DownSQL = ''DROP TABLE users;''\<rparr>,
               \<lparr>MigrationFile.Version = ''002'', Name = ''create_posts'',
                Path = ''migrations/002_create_posts.sql'',
                UpSQL = ''CREATE TABLE posts (id TEXT);'', DownSQL = []\<rparr>] = Some mf \<and>
               DownSQL mf = [])"
    by simp
  from Down_refuses_without_backward_body [OF h1 h2 h3 loadMigrationFiles_one_way h5]
  have "Down example_db ''migrations'' one_way_source out_of_order_world =
     (Some (New ''no DOWN migration found for version 002''),
      out_of_order_world\<lparr>sent := [SELECT]\<rparr>)"
    by (simp add: out_of_order_world_def)
  moreover have "list_all (\<lambda>m'. Migration.Version m' \<le> ''002'') (schema_migrations out_of_order_world)"
    by (simp add: out_of_order_world_def)
  ultimately show ?thesis using h1 h2 by simp
qed

text \<open>A ledger entry whose file is gone: \<^verbatim>\<open>Down\<close> names the missing version.\<close>

lemma Down_missing_file_example:
  "Down example_db ''migrations'' (Inr (Dir [])) out_of_order_world =
     (Some (New ''migration file not found for version 002''),
      out_of_order_world\<lparr>sent := [SELECT]\<rparr>)"
  by (simp add: engine_defs out_of_order_world_def loadMigrationFiles_def WalkDir_def walkFn_def
      Let_def)

text \<open>
  C3. Migration bodies are assumed not to write to the ledger table, and the
  ledger to hold one row for a version, as its primary key demands. When the
  ledger is read and is empty, \<^verbatim>\<open>Down\<close> succeeds and has sent nothing but
  that read. When the ledger is not empty and \<^verbatim>\<open>Down\<close> succeeds, it picked
  the entry \<open>m\<close> of greatest version (whatever the timestamps), executed the
  backward body of the first discovered definition of that version, and then
  deleted the row of that version: the ledger afterwards is the ledger before
  without \<open>m\<close>, every other row as it was.
\<close>

theorem Down_reverses_latest:
  assumes "keeps_ledger drv"
    and "distinct (map Migration.Version (schema_migrations w))"
    and "fault drv (sent w @ [SELECT]) = None"
    and "Down drv migrationsDir source w = (r, w')"
  shows "(schema_migrations w = [] \<longrightarrow>
            r = None \<and> sent w' = sent w @ [SELECT] \<and> schema_migrations w' = [] \<and>
            tables w' = tables w) \<and>
         (schema_migrations w \<noteq> [] \<and> r = None \<longrightarrow>
            (\<exists>m mf files.
               m \<in> set (schema_migrations w) \<and>
               (\<forall>m' \<in> set (schema_migrations w). Migration.Version m' \<le> Migration.Version m) \<and>
               loadMigrationFiles migrationsDir source = Inr files \<and>
               find (\<lambda>file. MigrationFile.Version file = Migration.Version m) files = Some mf \<and>
               sent w' = sent w @ [SELECT, Body (DownSQL mf), DELETE (Migration.Version m)] \<and>
               schema_migrations w' = remove1 m (schema_migrations w)))"
proof (cases "schema_migrations w = []")
  case True
  with Down_empty [OF assms(3) True, of migrationsDir source] assms(4) show ?thesis
    by (auto simp: Println_effect send_effect)
next
  case False
  let ?m = "last (sort_key Migration.Version (schema_migrations w))"
  have m: "?m \<in> set (schema_migrations w)"
    and mx: "\<forall>m' \<in> set (schema_migrations w). Migration.Version m' \<le> Migration.Version ?m"
    using last_sorted_ledger [OF False] by blast+
  {
    assume ok: "r = None"
    from ok assms(4) obtain files where load: "loadMigrationFiles migrationsDir source = Inr files"
      unfolding Down_unfold [OF assms(3) False] Let_def
      by (cases "loadMigrationFiles migrationsDir source") auto
    from ok assms(4) obtain mf where
      f: "find (\<lambda>file. MigrationFile.Version file = Migration.Version ?m) files = Some mf"
      unfolding Down_unfold [OF assms(3) False] Let_def load
      by (cases "find (\<lambda>file. MigrationFile.Version file = Migration.Version ?m) files") auto
    then have v: "MigrationFile.Version mf = Migration.Version ?m"
      by (auto simp: find_Some_iff)
    obtain r3 w3 where
      e0: "ExecuteSQL drv (DownSQL mf) (Println (rollback_line mf) (send SELECT w)) = (r3, w3)"
      by (cases "ExecuteSQL drv (DownSQL mf) (Println (rollback_line mf) (send SELECT w))") blast
    obtain r4 w4 where d0: "RemoveMigration drv (MigrationFile.Version mf) w3 = (r4, w4)"
      by (cases "RemoveMigration drv (MigrationFile.Version mf) w3") blast
    from ok assms(4) have "r3 = None \<and> r4 = None \<and>
        w' = Println ''Migration rolled back successfully'' w4"
      using e0 d0
      by (simp add: Down_unfold [OF assms(3) False] Let_def load f split: if_splits option.splits)
    with e0 d0 have
      e: "ExecuteSQL drv (DownSQL mf) (Println (rollback_line mf) (send SELECT w)) = (None, w3)"
      and d: "RemoveMigration drv (MigrationFile.Version mf) w3 = (None, w4)"
      and w': "w' = Println ''Migration rolled back successfully'' w4"
      by simp_all
    note ee = ExecuteSQL_effect [OF e] and de = RemoveMigration_effect [OF d]
    have "sent w' = sent w @ [SELECT, Body (DownSQL mf), DELETE (Migration.Version ?m)]"
      by (simp add: w' Println_effect de(1) ee(1) send_effect v)
    moreover have "schema_migrations w3 = schema_migrations w"
      using ee(4) [OF assms(1)] by (simp add: Println_effect send_effect)
    then have "schema_migrations w' = remove1 ?m (schema_migrations w)"
      using de(5) filter_version_remove1 [OF assms(2) m]
      by (simp add: w' Println_effect v)
    ultimately have "\<exists>m mf files.
               m \<in> set (schema_migrations w) \<and>
               (\<forall>m' \<in> set (schema_migrations w). Migration.Version m' \<le> Migration.Version m) \<and>
               loadMigrationFiles migrationsDir source = Inr files \<and>
               find (\<lambda>file. MigrationFile.Version file = Migration.Version m) files = Some mf \<and>
               sent w' = sent w @ [SELECT, Body (DownSQL mf), DELETE (Migration.Version m)] \<and>
               schema_migrations w' = remove1 m (schema_migrations w)"
      using m mx load f by blast
  }
  with False show ?thesis by blast
qed

lemma Down_example:
  "Down example_db ''migrations'' example_source out_of_order_world =
     (None,
      \<lparr>schema_migrations = [\<lparr>Migration.Version = ''001'', Name = ''create_users'', AppliedAt = 20\<rparr>],
       tables = [''DROP TABLE posts;''],
       sent = [SELECT, Body ''DROP TABLE posts;'', DELETE ''002''],
       stdout = [''Rolling back migration 002: create_posts'',
                 ''Migration rolled back successfully'']\<rparr>)"
  by (simp add: engine_defs out_of_order_world_def loadMigrationFiles_example Let_def)

theorem Down_reverses_latest_witness:
  "keeps_ledger example_db \<and>
   distinct (map Migration.Version (schema_migrations out_of_order_world)) \<and>
   fault example_db (sent out_of_order_world @ [SELECT]) = None \<and>
   schema_migrations out_of_order_world =
     [\<lparr>Migration.Version = ''002'', Name = ''create_posts'', AppliedAt = 10\<rparr>,
      \<lparr>Migration.Version = ''001'', Name = ''create_users'', AppliedAt = 20\<rparr>] \<and>
   fst (Down example_db ''migrations'' example_source out_of_order_world) = None \<and>
   sent (snd (Down example_db ''migrations'' example_source out_of_order_world)) =
     [SELECT, Body ''DROP TABLE posts;'', DELETE ''002''] \<and>
   schema_migrations (snd (Down example_db ''migrations'' example_source out_of_order_world)) =
     [\<lparr>Migration.Version = ''001'', Name = ''create_users'', AppliedAt = 20\<rparr>]"
proof -
  have h2: "distinct (map Migration.Version (schema_migrations out_of_order_world))"
    by (simp add: out_of_order_world_def)
  have h3: "fault example_db (sent out_of_order_world @ [SELECT]) = None"
    by (simp add: example_db_def)
  obtain w' where d: "Down example_db ''migrations'' example_source out_of_order_world = (None, w')"
    by (simp add: Down_example)
  have ne: "schema_migrations out_of_order_world \<noteq> []"
    by (simp add: out_of_order_world_def)
  from Down_reverses_latest [OF keeps_ledger_example h2 h3 d] ne
  obtain m mf where
    m: "m \<in> set (schema_migrations out_of_order_world)"
    and mx: "\<forall>m' \<in> set (schema_migrations out_of_order_world).
               Migration.Version m' \<le> Migration.Version m"
    and f: "find (\<lambda>file. MigrationFile.Version file = Migration.Version m)
              [\<lparr>MigrationFile.Version = ''001'', Name = ''create_users'',
                Path = ''migrations/nested/001_create_users.sql'',
                UpSQL = ''CREATE TABLE users (id TEXT);'', DownSQL = ''DROP TABLE users;''\<rparr>,
               \<lparr>MigrationFile.Version = ''002'', Name = ''create_posts'',
                Path = ''migrations/002_create_posts.sql'',
                UpSQL = ''CREATE TABLE posts (id TEXT);'', DownSQL = ''DROP TABLE posts;''\<rparr>] = Some mf"
    and s: "sent w' = sent out_of_order_world @
              [SELECT, Body (DownSQL mf), DELETE (Migration.Version m)]"
    and l: "schema_migrations w' = remove1 m (schema_migrations out_of_order_world)"
    by (auto simp: loadMigrationFiles_example)
  from m mx have m2: "m = \<lparr>Migration.Version = ''002'', Name = ''create_posts'', AppliedAt = 10\<rparr>"
    by (auto simp: out_of_order_world_def)
  with f have "DownSQL mf = ''DROP TABLE posts;''"
    by auto
  with s l m2 have "sent w' = [SELECT, Body ''DROP TABLE posts;'', DELETE ''002'']"
    and "schema_migrations w' =
           [\<lparr>Migration.Version = ''001'', Name = ''create_users'', AppliedAt = 20\<rparr>]"
    by (simp_all add: out_of_order_world_def)
  with keeps_ledger_example h2 h3 d show ?thesis
    by (simp add: out_of_order_world_def)
qed

end
